theory Spec2Isabelle
  imports Complex_Main "HOL-Library.Multiset" "HOL-Library.AList"
    "HOL-Library.Char_ord" "HOL-Library.List_Lexorder"
begin

section \<open>Errors and collaborators\<close>

text \<open>
  Every exception the modelled functions of \<^verbatim>\<open>epicode.py\<close> can raise is a value:
  \<^verbatim>\<open>ValueError\<close> (raised by the source itself for an unknown method, and by
  \<^verbatim>\<open>xrange\<close> for a zero step), \<^verbatim>\<open>ZeroDivisionError\<close> (Python float division),
  \<^verbatim>\<open>IndexError\<close> (a row index past the end of an array) and the exit of
  \<^verbatim>\<open>chk_exit\<close>, which carries its message.
\<close>

datatype error = ValueError string | ZeroDivisionError | IndexError | Exit string

text \<open>
  A region is the first three fields of a BED record, \<^verbatim>\<open>chr, start, end = reg[:3]\<close>.
  An opened alignment file is its point query \<^verbatim>\<open>bam.count(chr, start, end)\<close>, an
  external collaborator that returns an integer.
\<close>

type_synonym region = "string \<times> int \<times> int"

type_synonym samfile = "string \<Rightarrow> int \<Rightarrow> int \<Rightarrow> int"

section \<open>Absolute mode: \<^verbatim>\<open>parse_bam_absolute\<close>\<close>

text \<open>
  \<^verbatim>\<open>
  count = []
  for reg in regs:
      chr, start, end = reg[:3]
      n = bam.count(chr, start, end)
      count.append(float(n) / (end - start))
  return count
  \<close>
  The division is Python's float division, which raises for a zero divisor. The list
  \<^verbatim>\<open>count\<close> is written \<open>count'\<close>.
\<close>

fun absolute_loop :: "samfile \<Rightarrow> real list \<Rightarrow> region list \<Rightarrow> error + real list" where
  "absolute_loop bam count' [] = Inr count'"
| "absolute_loop bam count' ((chr, start, stop) # regs) =
     (let n = bam chr start stop
      in if stop - start = 0 then Inl ZeroDivisionError
         else absolute_loop bam (count' @ [real_of_int n / real_of_int (stop - start)]) regs)"

definition parse_bam_absolute :: "samfile \<Rightarrow> region list \<Rightarrow> error + real list" where
  "parse_bam_absolute bam regs = absolute_loop bam [] regs"

section \<open>Differential mode: \<^verbatim>\<open>parse_bam_differential\<close>\<close>

text \<open>
  Python's \<^verbatim>\<open>xrange(start, end, step)\<close>: ascending for a positive step, descending for
  a negative one, and a \<^verbatim>\<open>ValueError\<close> for step zero.
\<close>

function xrange_up :: "int \<Rightarrow> int \<Rightarrow> int \<Rightarrow> int list" where
  "xrange_up s e step = (if 0 < step \<and> s < e then s # xrange_up (s + step) e step else [])"
  by pat_completeness auto
termination
  by (relation "measure (\<lambda>(s, e, step). nat (e - s))") auto

function xrange_down :: "int \<Rightarrow> int \<Rightarrow> int \<Rightarrow> int list" where
  "xrange_down s e step = (if step < 0 \<and> e < s then s # xrange_down (s + step) e step else [])"
  by pat_completeness auto
termination
  by (relation "measure (\<lambda>(s, e, step). nat (s - e))") auto

definition xrange :: "int \<Rightarrow> int \<Rightarrow> int \<Rightarrow> error + int list" where
  "xrange s e step =
     (if step = 0 then Inl (ValueError ''xrange() arg 3 must not be zero'')
      else if 0 < step then Inr (xrange_up s e step)
      else Inr (xrange_down s e step))"

text \<open>
  \<^verbatim>\<open>
  for s in xrange(start, end, step):
      e = s + step
      an = abam.count(chr, s, e)
      bn = bbam.count(chr, s, e)
      acount.append(an)
      bcount.append(bn)
  \<close>
\<close>

fun window_loop ::
  "samfile \<Rightarrow> samfile \<Rightarrow> string \<Rightarrow> int \<Rightarrow> int list \<times> int list \<Rightarrow> int list \<Rightarrow> int list \<times> int list"
where
  "window_loop abam bbam chr step (acount, bcount) [] = (acount, bcount)"
| "window_loop abam bbam chr step (acount, bcount) (s # ss) =
     (let e = s + step;
          an = abam chr s e;
          bn = bbam chr s e
      in window_loop abam bbam chr step (acount @ [an], bcount @ [bn]) ss)"

text \<open>
  The loop over the regions; after the windows of a region the sentinel \<open>-1\<close> is appended
  to both sequences. The progress log of the source has no effect on the result.
\<close>

fun region_loop ::
  "samfile \<Rightarrow> samfile \<Rightarrow> int \<Rightarrow> int list \<times> int list \<Rightarrow> region list \<Rightarrow> error + int list \<times> int list"
where
  "region_loop abam bbam step (acount, bcount) [] = Inr (acount, bcount)"
| "region_loop abam bbam step (acount, bcount) ((chr, start, stop) # regs) =
     (case xrange start stop step of
        Inl err \<Rightarrow> Inl err
      | Inr ss \<Rightarrow>
          (case window_loop abam bbam chr step (acount, bcount) ss of
             (acount', bcount') \<Rightarrow>
               region_loop abam bbam step (acount' @ [- 1], bcount' @ [- 1]) regs))"

definition parse_bam_differential ::
  "samfile \<Rightarrow> samfile \<Rightarrow> region list \<Rightarrow> int \<Rightarrow> error + int list \<times> int list"
where
  "parse_bam_differential abam bbam regs step = region_loop abam bbam step ([], []) regs"

text \<open>
  The window block of one region in the words of the specification, for comparison with
  the loop above: \<open>ceil((end - start) / step)\<close> windows, the \<open>k\<close>-th starting at
  \<open>start + k * step\<close> and \<open>step\<close> wide, then the sentinel \<open>-1\<close>.
\<close>

definition spec_n_windows :: "int \<Rightarrow> int \<Rightarrow> int \<Rightarrow> nat" where
  "spec_n_windows start stop step = nat \<lceil>real_of_int (stop - start) / real_of_int step\<rceil>"

definition spec_region_block :: "samfile \<Rightarrow> int \<Rightarrow> region \<Rightarrow> int list" where
  "spec_region_block bam step reg =
     (case reg of (chr, start, stop) \<Rightarrow>
        map (\<lambda>k. bam chr (start + int k * step) (start + int k * step + step))
          [0 ..< spec_n_windows start stop step] @ [- 1])"

section \<open>Floating-point values\<close>

text \<open>
  The arrays of the scaling stages hold floats. A float is modelled as a real number or
  the not-a-number marker; arithmetic on real numbers is exact (rounding, overflow and
  the infinities are outside the model) and \<open>NaN\<close> propagates through every operation,
  as in numpy. A comparison with \<open>NaN\<close> is false, and \<open>NaN\<close> is different from every number.
\<close>

datatype val = NaN | Val real

fun isnan :: "val \<Rightarrow> bool" where
  "isnan NaN = True"
| "isnan (Val x) = False"

text \<open>\<^verbatim>\<open>v == x\<close> for a float \<open>v\<close> and a number \<open>x\<close>; \<^verbatim>\<open>v != x\<close> is its negation.\<close>

fun val_eq :: "val \<Rightarrow> real \<Rightarrow> bool" where
  "val_eq NaN x = False"
| "val_eq (Val y) x = (y = x)"

fun vadd :: "val \<Rightarrow> val \<Rightarrow> val" where
  "vadd (Val x) (Val y) = Val (x + y)"
| "vadd _ _ = NaN"

fun vsub :: "val \<Rightarrow> val \<Rightarrow> val" where
  "vsub (Val x) (Val y) = Val (x - y)"
| "vsub _ _ = NaN"

text \<open>
  Division. No divisor of the modelled code is zero: they are exponentials, the row
  counter \<open>j \<ge> 1\<close>, the number of columns of a non-empty slice, and standard deviations
  that were replaced by \<open>NaN\<close> where zero. The value given for a zero divisor is never used.
\<close>

fun vdiv :: "val \<Rightarrow> val \<Rightarrow> val" where
  "vdiv (Val x) (Val y) = (if y = 0 then NaN else Val (x / y))"
| "vdiv _ _ = NaN"

text \<open>
  \<^verbatim>\<open>np.log\<close>: not-a-number for a negative argument. Its arguments in \<^verbatim>\<open>size_factors\<close>
  are never zero (rows with a zero are removed first).
\<close>

fun vlog :: "val \<Rightarrow> val" where
  "vlog (Val x) = (if 0 < x then Val (ln x) else NaN)"
| "vlog NaN = NaN"

fun vexp :: "val \<Rightarrow> val" where
  "vexp (Val x) = Val (exp x)"
| "vexp NaN = NaN"

fun the_val :: "val \<Rightarrow> real" where
  "the_val (Val x) = x"
| "the_val NaN = 0"

text \<open>\<^verbatim>\<open>np.mean\<close> of a row: the sum divided by the number of entries.\<close>

definition vmean :: "val list \<Rightarrow> val" where
  "vmean xs = vdiv (foldl vadd (Val 0) xs) (Val (real (length xs)))"

text \<open>
  \<^verbatim>\<open>np.median\<close> of real numbers: the middle element of the sorted sequence, or the mean
  of the two middle elements when the length is even.
\<close>

definition median :: "real list \<Rightarrow> real" where
  "median xs =
     (let s = sort xs; n = length s
      in if odd n then s ! (n div 2) else (s ! (n div 2 - 1) + s ! (n div 2)) / 2)"

text \<open>
  \<^verbatim>\<open>np.median\<close> of a column of floats: not-a-number for an empty column (the mean of an
  empty slice) and for a column that holds a not-a-number.
\<close>

definition vmedian :: "val list \<Rightarrow> val" where
  "vmedian xs =
     (if xs = [] \<or> list_ex isnan xs then NaN else Val (median (map the_val xs)))"

text \<open>
  A matrix is the list of its rows; all rows have the same length. \<^verbatim>\<open>shape[1]\<close>, the
  number of columns, is read off the first row.
\<close>

type_synonym matrix = "val list list"

definition shape1 :: "matrix \<Rightarrow> nat" where
  "shape1 m = (case m of [] \<Rightarrow> 0 | row # _ \<Rightarrow> length row)"

section \<open>Paired scaling: \<^verbatim>\<open>scapair\<close>\<close>

text \<open>
  \<^verbatim>\<open>
  def size_factors(counts):
      counts = counts[np.alltrue(counts, axis=1)]
      logcounts = np.log(counts)
      loggeommeans = np.mean(logcounts, axis=1).reshape(len(logcounts), 1)
      sf = np.exp(np.median(logcounts - loggeommeans, axis=0))
      return sf
  \<close>
  \<open>w\<close> is the number of columns of \<open>counts\<close> (a slice of two columns). A float is true
  when it is not zero. Logarithm, mean, median and exponential are those of the real
  numbers: the rounding of double precision is not part of the model, which is exact
  about which rows are selected and where a missing value arises, and not about the
  last digits of a size factor.
\<close>

definition size_factors :: "nat \<Rightarrow> matrix \<Rightarrow> val list" where
  "size_factors w counts =
     (let counts = filter (list_all (\<lambda>v. \<not> val_eq v 0)) counts;
          logcounts = map (map vlog) counts;
          loggeommeans = map vmean logcounts;
          diffs = map2 (\<lambda>row m. map (\<lambda>x. vsub x m) row) logcounts loggeommeans
      in map (\<lambda>c. vexp (vmedian (map (\<lambda>row. row ! c) diffs))) [0 ..< w])"

text \<open>
  The assignment \<^verbatim>\<open>scaled[sel, col1:col1+2] = vals\<close>: the rows of \<open>scaled\<close> that \<open>sel\<close>
  selects receive, in order, the rows of \<open>vals\<close> in the columns from \<open>col1\<close> on.
\<close>

fun assign_rows :: "bool list \<Rightarrow> matrix \<Rightarrow> nat \<Rightarrow> matrix \<Rightarrow> matrix" where
  "assign_rows (True # sel) (row # scaled) col1 (v # vals) =
     (take col1 row @ v @ drop (col1 + length v) row) # assign_rows sel scaled col1 vals"
| "assign_rows (False # sel) (row # scaled) col1 vals =
     row # assign_rows sel scaled col1 vals"
| "assign_rows sel scaled col1 vals = scaled"

text \<open>
  \<^verbatim>\<open>
  pair = tmp[:, col1:col1+2]
  sf = size_factors(pair)
  scaled[sel, col1:col1+2] = pair / sf
  \<close>
  \<open>ncols\<close> is \<^verbatim>\<open>tmp.shape[1]\<close>, so the slice \<open>pair\<close> has \<open>min 2 (ncols - col1)\<close> columns.
\<close>

definition scale_pair :: "nat \<Rightarrow> matrix \<Rightarrow> bool list \<Rightarrow> nat \<Rightarrow> matrix \<Rightarrow> matrix" where
  "scale_pair ncols tmp sel col1 scaled =
     (let pair = map (\<lambda>row. take 2 (drop col1 row)) tmp;
          sf = size_factors (min 2 (ncols - col1)) pair
      in assign_rows sel scaled col1 (map (\<lambda>row. map2 vdiv row sf) pair))"

text \<open>
  \<^verbatim>\<open>
  if method == "deseq":
      sel = np.alltrue(raw != -1, axis=1)
      scaled = np.array(raw, dtype=float)
      scaled[raw == -1] = np.nan
      tmp = raw[sel]
      for col1 in xrange(0, tmp.shape[1], 2):
          ...
  else:
      raise ValueError("unknown method")
  return scaled
  \<close>
  The number of columns of \<open>tmp\<close> is that of \<open>raw\<close>. \<open>not_sentinel\<close> is the row test
  \<^verbatim>\<open>np.alltrue(raw != -1, axis=1)\<close>.
\<close>

definition not_sentinel :: "val list \<Rightarrow> bool" where
  "not_sentinel row = list_all (\<lambda>v. \<not> val_eq v (- 1)) row"

definition scapair :: "matrix \<Rightarrow> string \<Rightarrow> error + matrix" where
  "scapair raw method =
     (if method = ''deseq'' then
        (let sel = map not_sentinel raw;
             scaled = map (map (\<lambda>v. if val_eq v (- 1) then NaN else v)) raw;
             tmp = filter not_sentinel raw
         in Inr (fold (\<lambda>col1 scaled. scale_pair (shape1 raw) tmp sel col1 scaled)
                  (filter even [0 ..< shape1 raw]) scaled))
      else Inl (ValueError ''unknown method''))"

section \<open>Gain and loss: \<^verbatim>\<open>scale_differential\<close>\<close>

text \<open>The slices \<^verbatim>\<open>[:, 0::2]\<close> and \<^verbatim>\<open>[:, 1::2]\<close> of a row: every second entry.\<close>

fun every_second :: "'a list \<Rightarrow> 'a list" where
  "every_second [] = []"
| "every_second [x] = [x]"
| "every_second (x # y # xs) = x # every_second xs"

text \<open>
  \<^verbatim>\<open>
  acols = scaled[:,0::2]
  bcols = scaled[:,1::2]
  dcols = bcols - acols
  \<close>
  The matrix has an even number of columns (its columns come in A/B pairs).
\<close>

definition dcols :: "matrix \<Rightarrow> matrix" where
  "dcols scaled =
     map (\<lambda>row. map2 vsub (every_second (tl row)) (every_second row)) scaled"

text \<open>
  \<^verbatim>\<open>
  for c, v in enumerate(row):
      if v > 0:
          gl[(c*2) + 0][-1] += v
      if v < 0:
          gl[(c*2) + 1][-1] -= v
  \<close>
  \<open>cur\<close> holds the last entry of every column of \<open>gl\<close>, the entries of the region being
  summed. It has \<^verbatim>\<open>scaled.shape[1]\<close> entries, twice as many as a row of \<open>dcols\<close>, so both
  indices are in range.
\<close>

fun add_row :: "nat \<Rightarrow> val list \<Rightarrow> real list \<Rightarrow> real list" where
  "add_row c [] cur = cur"
| "add_row c (NaN # vs) cur = add_row (Suc c) vs cur"
| "add_row c (Val v # vs) cur =
     (let cur1 = (if 0 < v then cur[c * 2 + 0 := cur ! (c * 2 + 0) + v] else cur);
          cur2 = (if v < 0 then cur1[c * 2 + 1 := cur1 ! (c * 2 + 1) - v] else cur1)
      in add_row (Suc c) vs cur2)"

text \<open>
  \<^verbatim>\<open>
  while True:
      row = dcols[i]
      i += 1
      j += 1
      if np.isnan(row).any():
          break
      for c, v in enumerate(row): ...
  \<close>
  The first argument is \<^verbatim>\<open>dcols[i:]\<close>; reading \<^verbatim>\<open>dcols[i]\<close> when no row is left raises
  \<^verbatim>\<open>IndexError\<close>. The loop returns the rows left, \<open>j\<close> and the sums.
\<close>

fun block_loop :: "matrix \<Rightarrow> nat \<Rightarrow> real list \<Rightarrow> error + matrix \<times> nat \<times> real list" where
  "block_loop [] j cur = Inl IndexError"
| "block_loop (row # rest) j cur =
     (if list_ex isnan row then Inr (rest, Suc j, cur)
      else block_loop rest (Suc j) (add_row 0 row cur))"

lemma block_loop_shorter:
  "block_loop rows j cur = Inr (rest, j', cur') \<Longrightarrow> length rest < length rows"
proof (induction rows arbitrary: j cur)
  case Nil
  then show ?case by simp
next
  case (Cons row rows)
  show ?case
  proof (cases "list_ex isnan row")
    case True
    with Cons.prems show ?thesis by simp
  next
    case False
    with Cons.prems have "block_loop rows (Suc j) (add_row 0 row cur) = Inr (rest, j', cur')"
      by simp
    from Cons.IH[OF this] show ?thesis by simp
  qed
qed

text \<open>
  \<^verbatim>\<open>
  while i < dcols.shape[0]:
      j = 0
      for col in gl:
          col.append(0.0)
      while True: ...
      for col in gl:
          col[-1] /= float(j)
  \<close>
  \<open>n\<close> is the number of columns of \<open>gl\<close>, \<^verbatim>\<open>scaled.shape[1]\<close>. \<open>gl\<close> is kept by rows, one
  per finished region: \<^verbatim>\<open>np.column_stack(gl)\<close> is that list of rows.
\<close>

function gain_loss_loop :: "nat \<Rightarrow> matrix \<Rightarrow> real list list \<Rightarrow> error + real list list" where
  "gain_loss_loop n rows gl =
     (if rows = [] then Inr gl
      else case block_loop rows 0 (replicate n 0) of
             Inl err \<Rightarrow> Inl err
           | Inr (rest, j, cur) \<Rightarrow> gain_loss_loop n rest (gl @ [map (\<lambda>x. x / real j) cur]))"
  by pat_completeness auto
termination
  by (relation "measure (\<lambda>(n, rows, gl). length rows)") (auto dest: block_loop_shorter)

definition scale_differential :: "matrix \<Rightarrow> error + real list list" where
  "scale_differential scaled = gain_loss_loop (shape1 scaled) (dcols scaled) []"

section \<open>Array files: \<^verbatim>\<open>np.column_stack\<close>, \<^verbatim>\<open>np.savetxt\<close> and \<^verbatim>\<open>np.loadtxt\<close>\<close>

text \<open>
  \<^verbatim>\<open>np.column_stack\<close> of one-dimensional arrays: they become the columns of a matrix. It
  raises for an empty sequence and for columns of different lengths.
  \<^verbatim>\<open>process_bam_differential\<close> stacks the count sequences of all file pairs in this way:
  \<^verbatim>\<open>counts = np.column_stack(tmp)\<close>.
\<close>

definition column_stack :: "'a list list \<Rightarrow> error + 'a list list" where
  "column_stack cols =
     (case cols of
        [] \<Rightarrow> Inl (ValueError ''need at least one array to concatenate'')
      | col # _ \<Rightarrow>
          if list_all (\<lambda>c. length c = length col) cols
          then Inr (map (\<lambda>i. map (\<lambda>c. c ! i) cols) [0 ..< length col])
          else Inl (ValueError ''all the input array dimensions must match exactly''))"

text \<open>
  The body of an array file is the list of its rows of numbers. \<^verbatim>\<open>extract_differential\<close>
  writes the count matrix with \<^verbatim>\<open>np.savetxt(wh, counts, fmt="%d", delimiter="\t")\<close>.
\<close>

definition savetxt_d :: "int list list \<Rightarrow> val list list" where
  "savetxt_d counts = map (map (\<lambda>n. Val (real_of_int n))) counts"

text \<open>
  \<^verbatim>\<open>np.loadtxt(fh, delimiter="\t")\<close> squeezes its result: a body with no row, with one row
  or with one column is read as a one-dimensional array, every other body as the
  two-dimensional array of its rows.
\<close>

datatype 'a ndarray = Array1 "'a list" | Array2 "'a list list"

definition loadtxt :: "val list list \<Rightarrow> val ndarray" where
  "loadtxt body =
     (if length body \<le> 1 \<or> list_all (\<lambda>row. length row \<le> 1) body then Array1 (concat body)
      else Array2 body)"

text \<open>
  The stage \<^verbatim>\<open>scale_pairs\<close> reads the file and calls \<^verbatim>\<open>scapair\<close>:
  \<^verbatim>\<open>
  raw = np.loadtxt(fh, delimiter="\t")
  scaled = scapair(raw, scalgo)
  \<close>
  On a one-dimensional array \<^verbatim>\<open>np.alltrue(raw != -1, axis=1)\<close> raises.
\<close>

definition scale_pairs :: "val list list \<Rightarrow> string \<Rightarrow> error + matrix" where
  "scale_pairs body scalgo =
     (case loadtxt body of
        Array1 _ \<Rightarrow>
          if scalgo = ''deseq'' then Inl (ValueError ''axis(=1) out of bounds'')
          else Inl (ValueError ''unknown method'')
      | Array2 raw \<Rightarrow> scapair raw scalgo)"

text \<open>
  The stage \<^verbatim>\<open>scale_differential\<close> reads the file before the loop modelled above:
  \<^verbatim>\<open>
  scaled = np.loadtxt(fh, delimiter="\t")
  acols = scaled[:,0::2]
  \<close>
  On a one-dimensional array the slice \<^verbatim>\<open>scaled[:,0::2]\<close> raises \<^verbatim>\<open>IndexError\<close>.
\<close>

definition scale_differential_file :: "val list list \<Rightarrow> error + real list list" where
  "scale_differential_file body =
     (case loadtxt body of
        Array1 _ \<Rightarrow> Inl IndexError
      | Array2 scaled \<Rightarrow> scale_differential scaled)"

section \<open>Feature scaling: \<^verbatim>\<open>dsig\<close> and \<^verbatim>\<open>scarr\<close>\<close>

text \<open>
  \<^verbatim>\<open>
  def dsig(a, lq, loc, uq):
      a = np.asanyarray(a, dtype="f")
      alpha_l = loc - lq
      alpha_r = uq - loc
      a = a - loc
      lsel = (a < 0.)
      rsel = (a >= 0.)
      if alpha_l:
          a[lsel] = np.divide(a[lsel], -0.5 * alpha_l)
      if alpha_r:
          a[rsel] = np.divide(a[rsel], -0.5 * alpha_r)
      np.exp(a, a)
      np.add(a, 1, a)
      np.power(a, -1, a)
      return a
  \<close>
  The masks \<open>lsel\<close> and \<open>rsel\<close> are taken before either division, so every entry is
  treated on its own: \<open>dsig_entry\<close> is what happens to one entry \<open>x\<close> of \<open>a\<close>. A number
  is true when it is not zero. The input holds finite values. The exponential is that
  of the real numbers: the rounding of single precision (\<^verbatim>\<open>dtype="f"\<close>) is not part of the
  model, so the value is strictly between 0 and 1 here, where the program can return
  exactly 0 or exactly 1 for an entry far from the location.
\<close>

definition dsig_entry :: "real \<Rightarrow> real \<Rightarrow> real \<Rightarrow> real \<Rightarrow> real" where
  "dsig_entry x lq loc uq =
     (let alpha_l = loc - lq;
          alpha_r = uq - loc;
          a = x - loc;
          lsel = (a < 0);
          rsel = (a \<ge> 0);
          a1 = (if alpha_l \<noteq> 0 \<and> lsel then a / (- 0.5 * alpha_l) else a);
          a2 = (if alpha_r \<noteq> 0 \<and> rsel then a1 / (- 0.5 * alpha_r) else a1)
      in 1 / (exp a2 + 1))"

definition dsig :: "real list \<Rightarrow> real \<Rightarrow> real \<Rightarrow> real \<Rightarrow> real list" where
  "dsig a lq loc uq = map (\<lambda>x. dsig_entry x lq loc uq) a"

text \<open>
  \<^verbatim>\<open>scipy.stats.mstats.mquantiles\<close> of one row for one probability \<open>p\<close>, with its default
  plotting positions \<open>alphap = betap = 0.4\<close>:
  \<^verbatim>\<open>
  x = np.sort(data.compressed()); n = len(x)
  if n == 0: return ma.array(np.empty(len(p), dtype=float), mask=True)
  elif n == 1: return ma.array(np.resize(x, p.shape), mask=nomask)
  m = alphap + p*(1.-alphap-betap)
  aleph = (n*p + m)
  k = np.floor(aleph.clip(1, n-1)).astype(int)
  gamma = (aleph-k).clip(0,1)
  return (1.-gamma)*x[(k-1).tolist()] + gamma*x[k.tolist()]
  \<close>
  The quantile of an empty row is masked; a row without entries has nothing to scale, and
  the value 0 stands for it.
\<close>

definition clip :: "real \<Rightarrow> real \<Rightarrow> real \<Rightarrow> real" where
  "clip a lo hi = min (max a lo) hi"

definition mquantile :: "real list \<Rightarrow> real \<Rightarrow> real" where
  "mquantile data p =
     (let x = sort data; n = length x
      in if n = 0 then 0
         else if n = 1 then x ! 0
         else (let m = 0.4 + p * (1 - 0.4 - 0.4);
                   aleph = real n * p + m;
                   k = nat \<lfloor>clip aleph 1 (real n - 1)\<rfloor>;
                   gamma = clip (aleph - real k) 0 1
               in (1 - gamma) * x ! (k - 1) + gamma * x ! k))"

text \<open>
  \<^verbatim>\<open>
  qs = ss.mstats.mquantiles(data, (0.0, 0.0, hi), axis=1).T
  for row, lq, mu, uq in izip(data, qs[0], qs[1], qs[2]):
      row[:] = (dsig(row, lq, mu, uq) - 0.5) * 2.
  \<close>
  for one row of \<open>data\<close>, that is for one feature column of \<open>arr\<close>.
\<close>

definition sig_row :: "real \<Rightarrow> real list \<Rightarrow> real list" where
  "sig_row hi row =
     (let lq = mquantile row 0.0;
          mu = mquantile row 0.0;
          uq = mquantile row hi
      in map (\<lambda>v. (v - 0.5) * 2) (dsig row lq mu uq))"

text \<open>
  \<^verbatim>\<open>np.std(row, ddof=1)\<close> is numpy's sample standard deviation of a row, the square root of
  the sum of squared deviations from the mean divided by \<open>n - 1\<close>, as numpy computes it in
  double precision (not-a-number for fewer than two entries). Its rounding decides
  whether the result is exactly zero, so it is taken as it is: \<open>npstd\<close>, a function from
  a row to a float.
  \<^verbatim>\<open>
  dev = np.std(data, axis=1, ddof=1)[np.newaxis].T
  dev[dev == 0.] = np.nan
  data /= dev
  \<close>
  for one row of \<open>data\<close>.
\<close>

definition whiten_row :: "(real list \<Rightarrow> val) \<Rightarrow> real list \<Rightarrow> val list" where
  "whiten_row npstd row =
     (let dev = npstd row;
          dev = (if val_eq dev 0 then NaN else dev)
      in map (\<lambda>x. vdiv (Val x) dev) row)"

text \<open>
  The transpose \<^verbatim>\<open>.T\<close> of a matrix with \<open>n\<close> columns, and \<^verbatim>\<open>method.split("sig")[1]\<close>
  for a method that starts with \<^verbatim>\<open>sig\<close>: the text between that prefix and the next
  occurrence of \<^verbatim>\<open>sig\<close>.
\<close>

definition transposed :: "nat \<Rightarrow> 'a list list \<Rightarrow> 'a list list" where
  "transposed n m = map (\<lambda>j. map (\<lambda>row. row ! j) m) [0 ..< n]"

fun upto_sig :: "string \<Rightarrow> string" where
  "upto_sig [] = []"
| "upto_sig (c # cs) = (if take 3 (c # cs) = ''sig'' then [] else c # upto_sig cs)"

text \<open>
  \<^verbatim>\<open>
  def scarr(arr, method):
      if method.startswith("sig"):
          hi = float(method.split("sig")[1]) / 100
          data = np.array(arr, dtype=float).T
          ...
      elif method == "whiten":
          data = np.array(arr, dtype=float).T
          ...
      else:
          raise ValueError("unknown method")
      return data.T
  \<close>
  \<open>pyfloat\<close> is Python's \<^verbatim>\<open>float\<close> on a string, which raises \<^verbatim>\<open>ValueError\<close> for a string
  that is no number; \<open>npstd\<close> is \<^verbatim>\<open>np.std(row, ddof=1)\<close>. \<open>arr\<close> is a matrix of finite values,
  the list of its rows.
\<close>

definition shape1r :: "real list list \<Rightarrow> nat" where
  "shape1r m = (case m of [] \<Rightarrow> 0 | row # _ \<Rightarrow> length row)"

definition scarr ::
  "(string \<Rightarrow> real option) \<Rightarrow> (real list \<Rightarrow> val) \<Rightarrow> real list list \<Rightarrow> string \<Rightarrow> error + matrix"
where
  "scarr pyfloat npstd arr method =
     (if take 3 method = ''sig'' then
        (case pyfloat (upto_sig (drop 3 method)) of
           None \<Rightarrow> Inl (ValueError ''could not convert string to float'')
         | Some p \<Rightarrow>
             (let hi = p / 100;
                  data = transposed (shape1r arr) arr;
                  data = map (\<lambda>row. map Val (sig_row hi row)) data
              in Inr (transposed (length arr) data)))
      else if method = ''whiten'' then
        (let data = transposed (shape1r arr) arr;
             data = map (whiten_row npstd) data
         in Inr (transposed (length arr) data))
      else Inl (ValueError ''unknown method''))"

section \<open>Extraction stages: \<^verbatim>\<open>extract_absolute\<close> and \<^verbatim>\<open>extract_differential\<close>\<close>

text \<open>
  The stages act on the file system. The model keeps, for every directory, its entries
  (name and array file), and a trace of the effects of a stage in the order in which they
  happen: a directory made, the BED file parsed, the alignment files processed (the
  extraction work), an array file saved. Logging changes neither and is left out.
\<close>

datatype array_file = ArrayFile "string list" "real list list"

datatype event = Mkdir string | ParseBed string | Extract "string list" | Save string

record world =
  dirs :: "string \<rightharpoonup> (string \<times> array_file) list"
  trace :: "event list"

text \<open>
  What the stages call and this file does not define: \<^verbatim>\<open>inp_file\<close> of the task library
  (a pair of a condition, true when the path is no readable file, and a message), the
  way \<^verbatim>\<open>chks\<close> joins the messages of the checks that fail, Python's
  \<^verbatim>\<open>str(hash(...))\<close> of the input paths, and the functions \<^verbatim>\<open>parse_bed\<close>, \<^verbatim>\<open>process_bam_absolute\<close> and
  \<^verbatim>\<open>process_bam_differential\<close>, whose place in the sequence is what matters here. The
  stages do not look into the regions, of any type \<open>'r\<close>.
\<close>

record 'r env =
  inp_file :: "string \<Rightarrow> bool \<times> string"
  join_messages :: "string list \<Rightarrow> string"
  pyhash :: "string list \<Rightarrow> string"
  parse_bed :: "string \<Rightarrow> error + 'r list"
  process_bam_abs :: "string list \<Rightarrow> 'r list \<Rightarrow> bool \<Rightarrow> nat \<Rightarrow> error + string list \<times> real list list"
  process_bam_diff ::
    "string list \<Rightarrow> string list \<Rightarrow> 'r list \<Rightarrow> bool \<Rightarrow> nat \<Rightarrow> int \<Rightarrow> error + string list \<times> int list list"

text \<open>
  \<^verbatim>\<open>chk_exit(condition, message)\<close> ends the program with the message when the condition
  holds; \<^verbatim>\<open>chks\<close> ends it, when the condition of any pair of a list holds, with the
  joined messages of all such pairs.
\<close>

definition chk_exit :: "bool \<Rightarrow> string \<Rightarrow> error + unit" where
  "chk_exit condition message = (if condition then Inl (Exit message) else Inr ())"

definition chks :: "'r env \<Rightarrow> (bool \<times> string) list \<Rightarrow> error + unit" where
  "chks env checks =
     (let messages = map snd (filter fst checks)
      in chk_exit (messages \<noteq> []) (join_messages env messages))"

text \<open>
  \<^verbatim>\<open>odn.listdir(pattern)\<close> filters the names of the directory with Python's \<^verbatim>\<open>fnmatch\<close>:
  in a pattern \<^verbatim>\<open>*\<close> matches any text, \<^verbatim>\<open>?\<close> any one character, \<^verbatim>\<open>[seq]\<close> one
  character of \<open>seq\<close> (which may hold ranges \<^verbatim>\<open>a-z\<close>) and \<^verbatim>\<open>[!seq]\<close> one character not in
  it; a \<^verbatim>\<open>[\<close> that is never closed, and every other character, matches itself. The
  closing bracket is looked for as \<^verbatim>\<open>fnmatch.translate\<close> does: after an optional \<^verbatim>\<open>!\<close>
  and an optional \<^verbatim>\<open>]\<close>, which belong to \<open>seq\<close>.
\<close>

fun class_match :: "string \<Rightarrow> char \<Rightarrow> bool" where
  "class_match (a # b # c # rest) x =
     (if b = CHR ''-'' then (a \<le> x \<and> x \<le> c) \<or> class_match rest x
      else a = x \<or> class_match (b # c # rest) x)"
| "class_match (a # rest) x = (a = x \<or> class_match rest x)"
| "class_match [] x = False"

definition in_class :: "string \<Rightarrow> char \<Rightarrow> bool" where
  "in_class stuff x =
     (case stuff of
        [] \<Rightarrow> False
      | c # s \<Rightarrow> if c = CHR ''!'' then \<not> class_match s x else class_match stuff x)"

definition close_bracket :: "string \<Rightarrow> (string \<times> string) option" where
  "close_bracket ps =
     (let j1 = (if ps \<noteq> [] \<and> hd ps = CHR ''!'' then 1 else 0);
          j2 = (if drop j1 ps \<noteq> [] \<and> hd (drop j1 ps) = CHR '']'' then j1 + 1 else j1);
          j = j2 + length (takeWhile (\<lambda>c. c \<noteq> CHR '']'') (drop j2 ps))
      in if j \<ge> length ps then None else Some (take j ps, drop (j + 1) ps))"

lemma close_bracket_shorter:
  "close_bracket ps = Some (stuff, rest) \<Longrightarrow> length rest < length ps"
  by (auto simp: close_bracket_def Let_def split: if_splits)

function glob :: "string \<Rightarrow> string \<Rightarrow> bool" where
  "glob [] name = (name = [])"
| "glob (p # ps) name =
     (if p = CHR ''*'' then
        (case name of [] \<Rightarrow> glob ps [] | c # cs \<Rightarrow> glob ps (c # cs) \<or> glob (p # ps) cs)
      else if p = CHR ''?'' then
        (case name of [] \<Rightarrow> False | c # cs \<Rightarrow> glob ps cs)
      else if p = CHR ''['' then
        (case close_bracket ps of
           None \<Rightarrow> (case name of [] \<Rightarrow> False | c # cs \<Rightarrow> c = CHR ''['' \<and> glob ps cs)
         | Some (stuff, rest) \<Rightarrow>
             (case name of [] \<Rightarrow> False | c # cs \<Rightarrow> in_class stuff c \<and> glob rest cs))
      else (case name of [] \<Rightarrow> False | c # cs \<Rightarrow> c = p \<and> glob ps cs))"
  by pat_completeness auto
termination
  by (relation "measure (\<lambda>(p, name). length p + length name)")
     (auto dest: close_bracket_shorter)

text \<open>
  \<^verbatim>\<open>mkdir(odn)\<close> makes the directory when it is missing. \<^verbatim>\<open>odn.listdir(pattern)\<close> is the
  list of the names in the directory that the pattern matches. Saving writes the file
  under its name, replacing a file of that name.
\<close>

definition mkdir :: "string \<Rightarrow> world \<Rightarrow> world" where
  "mkdir odn w =
     w\<lparr>dirs := (case dirs w odn of None \<Rightarrow> (dirs w)(odn \<mapsto> []) | Some _ \<Rightarrow> dirs w),
       trace := trace w @ [Mkdir odn]\<rparr>"

definition listdir :: "world \<Rightarrow> string \<Rightarrow> string \<Rightarrow> string list" where
  "listdir w odn pattern =
     (case dirs w odn of
        None \<Rightarrow> []
      | Some entries \<Rightarrow> filter (\<lambda>name. glob pattern name) (map fst entries))"

definition save :: "string \<Rightarrow> string \<Rightarrow> array_file \<Rightarrow> world \<Rightarrow> world" where
  "save odn name file w =
     w\<lparr>dirs := (dirs w)(odn \<mapsto> AList.update name file (case dirs w odn of None \<Rightarrow> [] | Some es \<Rightarrow> es)),
       trace := trace w @ [Save (odn @ ''/'' @ name)]\<rparr>"

text \<open>\<^verbatim>\<open>if not runid: runid = str(hash(...))\<close>: no run id and the empty run id are replaced.\<close>

definition run_id :: "'r env \<Rightarrow> string option \<Rightarrow> string list \<Rightarrow> string" where
  "run_id env runid paths =
     (case runid of None \<Rightarrow> pyhash env paths
      | Some r \<Rightarrow> if r = [] then pyhash env paths else r)"

text \<open>
  \<^verbatim>\<open>
  chk_exit(bed is None, "a BED6+ file is required")
  chk_exit(bams is None, "a set of BAM files is required")
  chks([inp_file(bam) for bam in bams])
  mkdir(odn)
  if not runid:
      runid = str(hash((bed,tuple(bams))))
  bed_regions = parse_bed(bed)
  chk_exit(bool(odn.listdir("%s_lvl.arr" % runid)), "error: %s exists in %s" % (runid, odn))
  names, counts = process_bam_absolute(bams, bed_regions, shorten, par)
  fn = odn / (runid + "_%s.arr" % "lvl")
  with open(fn, "wb") as wh:
      wh.write("\t".join(names) + "\n")
      np.savetxt(wh, counts, delimiter="\t")
  return fn
  \<close>
  The result is the value or the error, and the world as the stage leaves it.
\<close>

definition extract_absolute ::
  "'r env \<Rightarrow> string option \<Rightarrow> string list option \<Rightarrow> string \<Rightarrow> string option \<Rightarrow> bool \<Rightarrow> nat \<Rightarrow>
   world \<Rightarrow> (error + string) \<times> world"
where
  "extract_absolute env bed bams odn runid shorten par w =
     (case chk_exit (bed = None) ''a BED6+ file is required'' of
        Inl err \<Rightarrow> (Inl err, w)
      | Inr _ \<Rightarrow>
     (case chk_exit (bams = None) ''a set of BAM files is required'' of
        Inl err \<Rightarrow> (Inl err, w)
      | Inr _ \<Rightarrow>
     (case chks env (map (inp_file env) (the bams)) of
        Inl err \<Rightarrow> (Inl err, w)
      | Inr _ \<Rightarrow>
     (let w = mkdir odn w;
          runid = run_id env runid (the bed # the bams);
          w = w\<lparr>trace := trace w @ [ParseBed (the bed)]\<rparr>
      in case parse_bed env (the bed) of
           Inl err \<Rightarrow> (Inl err, w)
         | Inr bed_regions \<Rightarrow>
     (case chk_exit (listdir w odn (runid @ ''_lvl.arr'') \<noteq> [])
             (''error: '' @ runid @ '' exists in '' @ odn) of
        Inl err \<Rightarrow> (Inl err, w)
      | Inr _ \<Rightarrow>
     (let w = w\<lparr>trace := trace w @ [Extract (the bams)]\<rparr>
      in case process_bam_abs env (the bams) bed_regions shorten par of
           Inl err \<Rightarrow> (Inl err, w)
         | Inr (names, counts) \<Rightarrow>
             (let fn = odn @ ''/'' @ (runid @ ''_lvl.arr'');
                  w = save odn (runid @ ''_lvl.arr'') (ArrayFile names counts) w
              in (Inr fn, w))))))))"

text \<open>
  \<^verbatim>\<open>
  chk_exit(*inp_file(bed))
  chks([inp_file(bam) for bam in abams + bbams])
  abams = tuple(sorted(abams))
  bbams = tuple(sorted(bbams))
  mkdir(odn)
  if not runid:
      runid = str(hash((bed, abams, bbams)))
  bed_regions = parse_bed(bed)
  chk_exit(bool(odn.listdir("%s_cnt.arr" % runid)), "error: %s exists in %s" % (runid, odn))
  names, counts = process_bam_differential(abams, bbams, bed_regions, shorten, par, step)
  fn = odn / (runid + "_%s.arr" % "cnt")
  with open(fn, "wb") as wh:
      wh.write("\t".join(names) + "\n")
      np.savetxt(wh, counts, fmt="%d", delimiter="\t")
  return fn
  \<close>
\<close>

definition extract_differential ::
  "'r env \<Rightarrow> string \<Rightarrow> string list \<Rightarrow> string list \<Rightarrow> string \<Rightarrow> string option \<Rightarrow> bool \<Rightarrow> int \<Rightarrow> nat \<Rightarrow>
   world \<Rightarrow> (error + string) \<times> world"
where
  "extract_differential env bed abams bbams odn runid shorten step par w =
     (case chk_exit (fst (inp_file env bed)) (snd (inp_file env bed)) of
        Inl err \<Rightarrow> (Inl err, w)
      | Inr _ \<Rightarrow>
     (case chks env (map (inp_file env) (abams @ bbams)) of
        Inl err \<Rightarrow> (Inl err, w)
      | Inr _ \<Rightarrow>
     (let abams = sort abams;
          bbams = sort bbams;
          w = mkdir odn w;
          runid = run_id env runid (bed # abams @ bbams);
          w = w\<lparr>trace := trace w @ [ParseBed bed]\<rparr>
      in case parse_bed env bed of
           Inl err \<Rightarrow> (Inl err, w)
         | Inr bed_regions \<Rightarrow>
     (case chk_exit (listdir w odn (runid @ ''_cnt.arr'') \<noteq> [])
             (''error: '' @ runid @ '' exists in '' @ odn) of
        Inl err \<Rightarrow> (Inl err, w)
      | Inr _ \<Rightarrow>
     (let w = w\<lparr>trace := trace w @ [Extract (abams @ bbams)]\<rparr>
      in case process_bam_diff env abams bbams bed_regions shorten par step of
           Inl err \<Rightarrow> (Inl err, w)
         | Inr (names, counts) \<Rightarrow>
             (let fn = odn @ ''/'' @ (runid @ ''_cnt.arr'');
                  w = save odn (runid @ ''_cnt.arr'')
                        (ArrayFile names (map (map real_of_int) counts)) w
              in (Inr fn, w)))))))"

text \<open>A directory holds a file of the given name.\<close>

definition file_exists :: "world \<Rightarrow> string \<Rightarrow> string \<Rightarrow> bool" where
  "file_exists w odn name =
     (case dirs w odn of None \<Rightarrow> False | Some entries \<Rightarrow> name \<in> set (map fst entries))"

text \<open>An effect of a stage that is extraction work or writes a file.\<close>

fun is_work :: "event \<Rightarrow> bool" where
  "is_work (Extract _) = True"
| "is_work (Save _) = True"
| "is_work _ = False"

section \<open>Notions used in the statements\<close>

text \<open>A count that is a positive number (not zero, not the sentinel, not missing).\<close>

definition positive :: "val \<Rightarrow> bool" where
  "positive v = (case v of NaN \<Rightarrow> False | Val x \<Rightarrow> 0 < x)"

text \<open>A two-column slice given by its rows \<open>(a, b)\<close>, and the half log ratios of its rows.\<close>

definition pair_rows :: "(real \<times> real) list \<Rightarrow> matrix" where
  "pair_rows ab = map (\<lambda>(a, b). [Val a, Val b]) ab"

definition half_log_ratio :: "(real \<times> real) list \<Rightarrow> real list" where
  "half_log_ratio ab = map (\<lambda>(a, b). (ln a - ln b) / 2) ab"

text \<open>
  The value \<^verbatim>\<open>pair / sf\<close> for one row \<open>r\<close> of \<open>tmp\<close>, and a row with the columns from
  \<open>c\<close> on replaced by \<open>v\<close>.
\<close>

definition scaled_pair_row :: "nat \<Rightarrow> matrix \<Rightarrow> nat \<Rightarrow> val list \<Rightarrow> val list" where
  "scaled_pair_row n tmp c r =
     map2 vdiv (take 2 (drop c r))
       (size_factors (min 2 (n - c)) (map (\<lambda>row. take 2 (drop c row)) tmp))"

definition put_pair :: "nat \<Rightarrow> val list \<Rightarrow> val list \<Rightarrow> val list" where
  "put_pair c v row = take c row @ v @ drop (c + length v) row"

text \<open>The feature column \<open>j\<close> of a matrix of finite values.\<close>

definition column :: "nat \<Rightarrow> real list list \<Rightarrow> real list" where
  "column j arr = map (\<lambda>row. row ! j) arr"

text \<open>
  An example: a directory that holds the two outputs of the run \<^verbatim>\<open>r[1]\<close>, with one value
  0 per column, and collaborators that accept every input and return fixed counts.
\<close>

definition example_env :: "unit env" where
  "example_env =
     \<lparr>inp_file = \<lambda>p. (False, []), join_messages = concat,
      pyhash = \<lambda>paths. ''0'', parse_bed = \<lambda>b. Inr [()],
      process_bam_abs = \<lambda>bams regs shorten par. Inr ([''m''], [[1]]),
      process_bam_diff = \<lambda>abams bbams regs shorten par step.
        Inr ([''m:a'', ''m:b''], [[1, 2], [- 1, - 1]])\<rparr>"

definition example_world :: world where
  "example_world =
     \<lparr>dirs = [''out'' \<mapsto> [(''r[1]_lvl.arr'', ArrayFile [''m''] [[0]]),
                         (''r[1]_cnt.arr'', ArrayFile [''m:a'', ''m:b''] [[0, 0]])]],
      trace = []\<rparr>"

section \<open>Properties\<close>

declare xrange_up.simps [simp del] xrange_down.simps [simp del] gain_loss_loop.simps [simp del]

subsection \<open>Absolute extraction\<close>

lemma absolute_loop_ok:
  "\<forall>(chr, start, stop) \<in> set regs. start < stop \<Longrightarrow>
   absolute_loop bam count' regs =
     Inr (count' @ map (\<lambda>(chr, start, stop).
            real_of_int (bam chr start stop) / real_of_int (stop - start)) regs)"
  by (induction regs arbitrary: count') auto

text \<open>
  Claim C7. For regions that all have \<open>start < end\<close>, \<^verbatim>\<open>parse_bam_absolute\<close> raises
  nothing and returns, region by region and in input order, the raw count of the
  alignment file divided by \<open>end - start\<close>; a raw count of 0 gives the value 0.
\<close>

theorem parse_bam_absolute_normalized:
  assumes "\<forall>(chr, start, stop) \<in> set regs. start < stop"
  shows "\<exists>count'. parse_bam_absolute bam regs = Inr count' \<and> length count' = length regs \<and>
          (\<forall>i < length regs. case regs ! i of (chr, start, stop) \<Rightarrow>
             count' ! i = real_of_int (bam chr start stop) / real_of_int (stop - start) \<and>
             (bam chr start stop = 0 \<longrightarrow> count' ! i = 0))"
  using absolute_loop_ok[OF assms, of bam "[]"]
  by (auto simp: parse_bam_absolute_def split: prod.splits)

theorem parse_bam_absolute_normalized_witness:
  "parse_bam_absolute (\<lambda>chr start stop. if chr = ''chr2'' then 0 else if start = 0 then 10 else 5)
     [(''chr1'', 0, 100), (''chr1'', 100, 250), (''chr2'', 5, 6)] = Inr [1 / 10, 1 / 30, 0]"
proof -
  have h: "\<forall>(chr, start, stop) \<in> set [(''chr1'', 0::int, 100::int), (''chr1'', 100, 250), (''chr2'', 5, 6)].
      start < stop"
    by simp
  from parse_bam_absolute_normalized
    [OF h, of "\<lambda>chr start stop. if chr = ''chr2'' then 0 else if start = 0 then 10 else 5"]
  have "\<exists>count'. parse_bam_absolute
      (\<lambda>chr start stop. if chr = ''chr2'' then 0 else if start = 0 then 10 else 5)
      [(''chr1'', 0, 100), (''chr1'', 100, 250), (''chr2'', 5, 6)] = Inr count'"
    by blast
  then show ?thesis
    by (simp add: parse_bam_absolute_def)
qed

subsection \<open>Differential extraction\<close>

lemma length_xrange_up:
  "0 < step \<Longrightarrow> length (xrange_up s e step) = spec_n_windows s e step"
proof (induction s e step rule: xrange_up.induct)
  case (1 s e step)
  show ?case
  proof (cases "s < e")
    case True
    have eq: "real_of_int (e - s) / real_of_int step = real_of_int (e - (s + step)) / real_of_int step + 1"
      using 1(2) by (simp add: field_simps)
    have pos: "0 < \<lceil>real_of_int (e - s) / real_of_int step\<rceil>"
      using True 1(2) by (simp add: ceiling_less_iff)
    have "\<lceil>real_of_int (e - s) / real_of_int step\<rceil> = \<lceil>real_of_int (e - (s + step)) / real_of_int step\<rceil> + 1"
      by (subst eq) simp
    with pos have "spec_n_windows s e step = Suc (spec_n_windows (s + step) e step)"
      unfolding spec_n_windows_def by linarith
    with 1 True show ?thesis by (subst xrange_up.simps) simp
  next
    case False
    then have "real_of_int (e - s) / real_of_int step \<le> 0"
      using 1(2) by (simp add: divide_le_0_iff)
    then have "\<lceil>real_of_int (e - s) / real_of_int step\<rceil> \<le> 0"
      by (simp add: ceiling_le_iff)
    with False show ?thesis by (subst xrange_up.simps) (simp add: spec_n_windows_def)
  qed
qed

lemma xrange_up_nth:
  "0 < step \<Longrightarrow> xrange_up s e step = map (\<lambda>k. s + int k * step) [0 ..< spec_n_windows s e step]"
proof (induction s e step rule: xrange_up.induct)
  case (1 s e step)
  show ?case
  proof (cases "s < e")
    case True
    have step: "xrange_up s e step = s # xrange_up (s + step) e step"
      using True 1(2) by (subst xrange_up.simps) simp
    have n: "spec_n_windows s e step = Suc (spec_n_windows (s + step) e step)"
      using length_xrange_up[OF 1(2), of s e] length_xrange_up[OF 1(2), of "s + step" e]
      by (simp add: step)
    have "xrange_up s e step = s # xrange_up (s + step) e step" by (rule step)
    also have "\<dots> = s # map (\<lambda>k. s + step + int k * step) [0 ..< spec_n_windows (s + step) e step]"
      using 1 True by simp
    also have "\<dots> = map (\<lambda>k. s + int k * step) [0 ..< Suc (spec_n_windows (s + step) e step)]"
      by (simp add: upt_conv_Cons map_Suc_upt[symmetric] algebra_simps del: upt_Suc)
    finally show ?thesis using n by simp
  next
    case False
    then have "xrange_up s e step = []" by (subst xrange_up.simps) simp
    with length_xrange_up[OF 1(2), of s e] show ?thesis by simp
  qed
qed

lemma window_loop_eq:
  "window_loop abam bbam chr step (acount, bcount) ss =
     (acount @ map (\<lambda>s. abam chr s (s + step)) ss, bcount @ map (\<lambda>s. bbam chr s (s + step)) ss)"
  by (induction ss arbitrary: acount bcount) (simp_all add: Let_def)

lemma region_loop_eq:
  "0 < step \<Longrightarrow>
   region_loop abam bbam step (acount, bcount) regs =
     Inr (acount @ concat (map (spec_region_block abam step) regs),
          bcount @ concat (map (spec_region_block bbam step) regs))"
proof (induction regs arbitrary: acount bcount)
  case Nil
  then show ?case by simp
next
  case (Cons reg regs)
  obtain chr start stop where reg: "reg = (chr, start, stop)" by (cases reg) auto
  show ?case
    using Cons
    by (simp add: reg xrange_def window_loop_eq spec_region_block_def xrange_up_nth[of step start stop] comp_def)
qed


text \<open>
  Claim C4. For every positive step, \<^verbatim>\<open>parse_bam_differential\<close> raises nothing and
  returns, for the A file and for the B file, the concatenation over the regions in input
  order of one block per region: \<open>ceil((end - start) / step)\<close> window counts followed by
  exactly one sentinel \<open>-1\<close>.
\<close>

theorem parse_bam_differential_blocks:
  assumes "0 < step"
  shows "parse_bam_differential abam bbam regs step =
           Inr (concat (map (spec_region_block abam step) regs),
                concat (map (spec_region_block bbam step) regs)) \<and>
         (\<forall>(chr, start, stop) \<in> set regs.
            length (spec_region_block abam step (chr, start, stop)) =
              nat \<lceil>real_of_int (stop - start) / real_of_int step\<rceil> + 1 \<and>
            last (spec_region_block abam step (chr, start, stop)) = - 1 \<and>
            length (spec_region_block bbam step (chr, start, stop)) =
              nat \<lceil>real_of_int (stop - start) / real_of_int step\<rceil> + 1 \<and>
            last (spec_region_block bbam step (chr, start, stop)) = - 1)"
  using region_loop_eq[OF assms, of abam bbam "[]" "[]" regs]
  by (auto simp: parse_bam_differential_def spec_region_block_def spec_n_windows_def)

theorem parse_bam_differential_blocks_witness:
  "(0::int) < 100 \<and>
   parse_bam_differential (\<lambda>chr s e. s) (\<lambda>chr s e. e)
     [(''chr1'', 0, 250), (''chr2'', 10, 11)] 100 =
     Inr ([0, 100, 200, - 1, 10, - 1], [100, 200, 300, - 1, 110, - 1])"
proof -
  have h: "(0::int) < 100" by simp
  have n1: "nat \<lceil>(250::real) / 100\<rceil> = 3" by linarith
  have n2: "nat \<lceil>(1::real) / 100\<rceil> = 1" by linarith
  show ?thesis
    using parse_bam_differential_blocks
      [OF h, of "\<lambda>chr s e. s" "\<lambda>chr s e. e" "[(''chr1'', 0, 250), (''chr2'', 10, 11)]"]
    by (simp add: spec_region_block_def spec_n_windows_def n1 n2 upt_conv_Cons)
qed

subsection \<open>Gain and loss aggregation\<close>

lemma gll_nil: "gain_loss_loop n [] gl = Inr gl"
  by (subst gain_loss_loop.simps) simp

lemma gll_cons: "gain_loss_loop n (r # rows) gl =
  (case block_loop (r # rows) 0 (replicate n 0) of
             Inl err \<Rightarrow> Inl err
           | Inr (rest, j, cur) \<Rightarrow> gain_loss_loop n rest (gl @ [map (\<lambda>x. x / real j) cur]))"
  by (subst gain_loss_loop.simps) simp

lemma block_loop_Inl:
  "(\<exists>e. block_loop rows j cur = Inl e) \<longleftrightarrow> (\<forall>row \<in> set rows. \<not> list_ex isnan row)"
  by (induction rows arbitrary: j cur) auto

lemma block_loop_Inr:
  "block_loop rows j cur = Inr (rest, j', cur') \<Longrightarrow>
   \<exists>pre row. rows = pre @ row # rest \<and> list_ex isnan row"
proof (induction rows arbitrary: j cur)
  case Nil
  then show ?case by simp
next
  case (Cons r rows)
  show ?case
  proof (cases "list_ex isnan r")
    case True
    with Cons.prems have "rest = rows" by simp
    with True show ?thesis by (intro exI[of _ "[]"] exI[of _ r]) simp
  next
    case False
    with Cons.prems have "block_loop rows (Suc j) (add_row 0 r cur) = Inr (rest, j', cur')"
      by simp
    from Cons.IH[OF this] obtain pre row where "rows = pre @ row # rest" "list_ex isnan row"
      by blast
    then show ?thesis by (intro exI[of _ "r # pre"] exI[of _ row]) simp
  qed
qed

lemma gain_loss_loop_total:
  "(\<exists>out. gain_loss_loop n rows gl = Inr out) \<longleftrightarrow> (rows = [] \<or> list_ex isnan (last rows))"
proof (induction n rows gl rule: gain_loss_loop.induct)
  case (1 n rows gl)
  show ?case
  proof (cases "rows = []")
    case True
    then show ?thesis by (simp add: gll_nil)
  next
    case False
    show ?thesis
    proof (cases "block_loop rows 0 (replicate n 0)")
      case (Inl e)
      then have "\<forall>row \<in> set rows. \<not> list_ex isnan row"
        using block_loop_Inl[of rows 0 "replicate n 0"] by blast
      with False have "\<not> list_ex isnan (last rows)" by simp
      with False Inl show ?thesis by (subst gain_loss_loop.simps) simp
    next
      case (Inr t)
      obtain rest j cur where t: "t = (rest, j, cur)" by (cases t) auto
      from block_loop_Inr[OF Inr[unfolded t]] obtain pre row
        where rows: "rows = pre @ row # rest" and nan: "list_ex isnan row" by blast
      have "(rest = [] \<or> list_ex isnan (last rest)) \<longleftrightarrow> list_ex isnan (last rows)"
        using rows nan by auto
      moreover have "gain_loss_loop n rows gl = gain_loss_loop n rest (gl @ [map (\<lambda>x. x / real j) cur])"
        using False Inr t by (subst gain_loss_loop.simps) simp
      ultimately show ?thesis
        using 1[OF False Inr[unfolded t] refl refl] False by simp
    qed
  qed
qed


lemma length_assign_rows [simp]: "length (assign_rows sel scaled c vals) = length scaled"
  by (induction sel scaled c vals rule: assign_rows.induct) auto

lemma last_assign_rows:
  "length sel = length scaled \<Longrightarrow> scaled \<noteq> [] \<Longrightarrow> \<not> last sel \<Longrightarrow>
   last (assign_rows sel scaled c vals) = last scaled"
proof (induction sel scaled c vals rule: assign_rows.induct)
  case (1 sel row scaled col1 v vals)
  then have ne: "scaled \<noteq> []" by (cases sel) auto
  then have "assign_rows sel scaled col1 vals \<noteq> []"
    using length_assign_rows[of sel scaled col1 vals] by (metis length_0_conv)
  with 1 ne show ?case by (auto split: if_splits)
next
  case (2 sel row scaled col1 vals)
  show ?case
  proof (cases "scaled = []")
    case True
    then show ?thesis by simp
  next
    case False
    then have "assign_rows sel scaled col1 vals \<noteq> []"
      using length_assign_rows[of sel scaled col1 vals] by (metis length_0_conv)
    with 2 False show ?thesis by (auto split: if_splits)
  qed
qed auto

lemma last_fold_scale_pair:
  "length sel = length scaled \<Longrightarrow> scaled \<noteq> [] \<Longrightarrow> \<not> last sel \<Longrightarrow>
   last (fold (\<lambda>col1 scaled. scale_pair ncols tmp sel col1 scaled) cols scaled) = last scaled \<and>
   length (fold (\<lambda>col1 scaled. scale_pair ncols tmp sel col1 scaled) cols scaled) = length scaled"
proof (induction cols arbitrary: scaled)
  case Nil
  then show ?case by simp
next
  case (Cons c cols)
  have l: "length (scale_pair ncols tmp sel c scaled) = length scaled"
    by (simp add: scale_pair_def Let_def)
  have la: "last (scale_pair ncols tmp sel c scaled) = last scaled"
    using Cons.prems by (simp add: scale_pair_def Let_def last_assign_rows)
  have ne: "scale_pair ncols tmp sel c scaled \<noteq> []"
    using l Cons.prems(2) by (metis length_0_conv)
  from Cons.IH[of "scale_pair ncols tmp sel c scaled"] Cons.prems l la ne
  show ?case by simp
qed


lemma scapair_last_sentinel:
  assumes "raw \<noteq> []" "last raw = replicate k (Val (- 1))" "0 < k"
  shows "\<exists>scaled. scapair raw ''deseq'' = Inr scaled \<and> scaled \<noteq> [] \<and>
           last scaled = replicate k NaN"
proof -
  let ?sel = "map not_sentinel raw"
  let ?sc = "map (map (\<lambda>v. if val_eq v (- 1) then NaN else v)) raw"
  let ?tmp = "filter not_sentinel raw"
  have nsel: "\<not> last ?sel"
    using assms by (cases k) (simp_all add: last_map not_sentinel_def)
  have lsc: "last ?sc = replicate k NaN"
    using assms by (simp add: last_map)
  have "length ?sel = length ?sc" "?sc \<noteq> []" using assms(1) by simp_all
  from last_fold_scale_pair[OF this nsel, of "shape1 raw" ?tmp "filter even [0 ..< shape1 raw]"] lsc assms(1)
  show ?thesis
    by (simp add: scapair_def Let_def) (metis length_0_conv length_map)
qed

lemma every_second_Cons: "every_second (x # xs) = x # every_second (tl xs)"
  by (cases xs) simp_all

lemma dcols_last_nan:
  assumes "scaled \<noteq> []" "last scaled = replicate k NaN" "2 \<le> k"
  shows "list_ex isnan (last (dcols scaled))"
proof -
  obtain m where k: "k = Suc (Suc m)" using assms(3) by (metis Suc_le_D numeral_2_eq_2 Suc_le_mono)
  show ?thesis using assms(1,2) by (simp add: dcols_def last_map k every_second_Cons)
qed

lemma even_row_nan:
  "even (length row) \<Longrightarrow>
   list_ex isnan (map2 vsub (every_second (tl row)) (every_second row)) = list_ex isnan row"
proof (induction row rule: every_second.induct)
  case (3 x y xs)
  then have "list_ex isnan (map2 vsub (every_second (tl xs)) (every_second xs)) = list_ex isnan xs"
    by simp
  moreover have "isnan (vsub y x) = (isnan x \<or> isnan y)"
    by (cases x; cases y) simp_all
  ultimately show ?case by (auto simp: every_second_Cons)
qed simp_all

lemma block_loop_block:
  "\<forall>row \<in> set fin. \<not> list_ex isnan row \<Longrightarrow> list_ex isnan r \<Longrightarrow>
   block_loop (fin @ r # rest) j cur = Inr (rest, j + length fin + 1, fold (add_row 0) fin cur)"
  by (induction fin arbitrary: j cur) simp_all

text \<open>
  Claim C1. The claim says that the sums of a region are divided by the number of windows
  summed, so that a single window with delta \<open>+5\<close> gives gain 5. The row counter \<open>j\<close> of
  \<^verbatim>\<open>scale_differential\<close> is incremented for the terminating missing-value row as well
  (lemma \<open>block_loop_block\<close>: \<open>j\<close> is the number of windows plus one), so the code
  returns gain \<open>5 / 2\<close> for that region: the sums are right, the divisor is one too large.
\<close>

theorem scale_differential_single_window:
  "scale_differential [[Val a, Val (a + 5)], [NaN, NaN]] = Inr [[5 / 2, 0]]"
  by (simp add: scale_differential_def shape1_def dcols_def gll_nil gll_cons)

lemma scale_differential_returns_iff:
  assumes "even (length (last scaled))"
  shows "(\<exists>gl. scale_differential scaled = Inr gl) \<longleftrightarrow>
         (scaled = [] \<or> list_ex isnan (last scaled))"
proof (cases "scaled = []")
  case True
  then show ?thesis by (simp add: scale_differential_def dcols_def gll_nil)
next
  case False
  then have "last (dcols scaled) =
      map2 vsub (every_second (tl (last scaled))) (every_second (last scaled))"
    by (simp add: dcols_def last_map)
  with assms have "list_ex isnan (last (dcols scaled)) = list_ex isnan (last scaled)"
    by (simp add: even_row_nan)
  moreover have "dcols scaled \<noteq> []" using False by (simp add: dcols_def)
  ultimately show ?thesis
    using gain_loss_loop_total[of "shape1 scaled" "dcols scaled" "[]"] False
    by (simp add: scale_differential_def)
qed

lemma scale_differential_after_scapair:
  assumes "raw \<noteq> []" "last raw = replicate k (Val (- 1))" "2 \<le> k"
  shows "\<exists>scaled gl. scapair raw ''deseq'' = Inr scaled \<and> scale_differential scaled = Inr gl"
proof -
  from assms(3) have "0 < k" by simp
  from scapair_last_sentinel[OF assms(1,2) this]
  obtain scaled where sc: "scapair raw ''deseq'' = Inr scaled"
    "scaled \<noteq> []" "last scaled = replicate k NaN" by auto
  from dcols_last_nan[OF sc(2,3) assms(3)]
  have "list_ex isnan (last (dcols scaled))" .
  then obtain gl where "gain_loss_loop (shape1 scaled) (dcols scaled) [] = Inr gl"
    using gain_loss_loop_total[of "shape1 scaled" "dcols scaled" "[]"] by blast
  with sc(1) show ?thesis by (simp add: scale_differential_def)
qed

text \<open>
  Claim C10. The walk over the rows stops only at a row with a missing value (lemma
  \<open>scale_differential_returns_iff\<close>). The claim says that the output of
  \<^verbatim>\<open>extract_differential\<close> meets this because every region ends with a sentinel pair, and
  the docstring of \<^verbatim>\<open>scale_differential\<close> calls that output a proper input. For one
  region of one window with counts 3 and 4, \<^verbatim>\<open>parse_bam_differential\<close> returns the
  sequences \<open>[3, -1]\<close> and \<open>[4, -1]\<close>, the file holds the rows \<open>(3, 4)\<close> and \<open>(-1, -1)\<close>, and
  \<^verbatim>\<open>scale_differential\<close> reads them as a two-dimensional array in which no row has a
  missing value (the sentinel is the number \<open>-1\<close>, and \<open>-1 - -1 = 0\<close>): the walk reads
  past the last row and raises \<^verbatim>\<open>IndexError\<close>. Only \<^verbatim>\<open>scapair\<close> turns the sentinels into
  missing values (lemma \<open>scale_differential_after_scapair\<close>).
\<close>

theorem scale_differential_raw_counts_index_error:
  "parse_bam_differential (\<lambda>chr s e. 3) (\<lambda>chr s e. 4) [(''chr1'', 0, 100)] 100 =
     Inr ([3, - 1], [4, - 1]) \<and>
   column_stack [[3, - 1], [4, - 1 :: int]] = Inr [[3, 4], [- 1, - 1]] \<and>
   loadtxt (savetxt_d [[3, 4], [- 1, - 1]]) = Array2 [[Val 3, Val 4], [Val (- 1), Val (- 1)]] \<and>
   scale_differential_file (savetxt_d [[3, 4], [- 1, - 1]]) = Inl IndexError"
  by (simp add: parse_bam_differential_def xrange_def xrange_up.simps[of 0]
     xrange_up.simps[of 100] Let_def column_stack_def savetxt_d_def loadtxt_def
     scale_differential_file_def scale_differential_def shape1_def dcols_def gll_nil gll_cons)

subsection \<open>Paired scaling\<close>

lemma assign_rows_map:
  "assign_rows (map P raw) (map h raw) c (map f (filter P raw)) =
     map (\<lambda>r. if P r then put_pair c (f r) (h r) else h r) raw"
  by (induction raw) (simp_all add: put_pair_def)

lemma scale_pair_map:
  "scale_pair n (filter P raw) (map P raw) c (map h raw) =
     map (\<lambda>r. if P r then put_pair c (scaled_pair_row n (filter P raw) c r) (h r) else h r) raw"
proof -
  have "map (\<lambda>row. map2 vdiv row (size_factors (min 2 (n - c))
            (map (\<lambda>row. take 2 (drop c row)) (filter P raw))))
          (map (\<lambda>row. take 2 (drop c row)) (filter P raw)) =
        map (scaled_pair_row n (filter P raw) c) (filter P raw)"
    by (simp add: scaled_pair_row_def)
  then show ?thesis
    by (simp add: scale_pair_def Let_def assign_rows_map)
qed

lemma fold_scale_pair_map:
  "fold (\<lambda>c sc. scale_pair n (filter P raw) (map P raw) c sc) cols (map h raw) =
     map (\<lambda>r. if P r
               then fold (\<lambda>c row. put_pair c (scaled_pair_row n (filter P raw) c r) row) cols (h r)
               else h r) raw"
proof (induction cols arbitrary: h)
  case Nil
  then show ?case by simp
next
  case (Cons c cols)
  show ?case
    by (simp add: scale_pair_map Cons.IH cong: if_cong)
qed

lemma length_size_factors [simp]: "length (size_factors w counts) = w"
  by (simp add: size_factors_def Let_def)

lemma length_scaled_pair_row:
  "c + 2 \<le> n \<Longrightarrow> c + 2 \<le> length r \<Longrightarrow> length (scaled_pair_row n tmp c r) = 2"
  by (simp add: scaled_pair_row_def)

lemma length_put_pair: "c + length v \<le> length row \<Longrightarrow> length (put_pair c v row) = length row"
  by (simp add: put_pair_def)

lemma slice_put_pair_same:
  "c + length v \<le> length row \<Longrightarrow> length v = 2 \<Longrightarrow> take 2 (drop c (put_pair c v row)) = v"
  by (simp add: put_pair_def)

lemma slice_put_pair_other:
  assumes "c' + 2 \<le> length row" "length v = 2" "c + 2 \<le> c' \<or> c' + 2 \<le> c"
  shows "take 2 (drop c (put_pair c' v row)) = take 2 (drop c row)"
  using assms(3)
proof
  assume "c + 2 \<le> c'"
  then show ?thesis using assms(1,2)
    by (simp add: put_pair_def take_drop min_def)
next
  assume h: "c' + 2 \<le> c"
  then have "Suc (Suc (c - 2)) = c" by simp
  with h show ?thesis using assms(1,2)
    by (simp add: put_pair_def)
qed

lemma fold_put_pair:
  assumes "distinct cols" "\<forall>c' \<in> set cols. even c' \<and> c' + 2 \<le> length row \<and> length (f c') = 2"
    and "even c" "c + 2 \<le> length row"
  shows "length (fold (\<lambda>c row. put_pair c (f c) row) cols row) = length row \<and>
         take 2 (drop c (fold (\<lambda>c row. put_pair c (f c) row) cols row)) =
           (if c \<in> set cols then f c else take 2 (drop c row))"
  using assms
proof (induction cols arbitrary: row)
  case Nil
  then show ?case by simp
next
  case (Cons c' cols)
  let ?row = "put_pair c' (f c') row"
  have len: "length ?row = length row"
    using Cons.prems(2) by (simp add: length_put_pair)
  have IH: "length (fold (\<lambda>c row. put_pair c (f c) row) cols ?row) = length ?row \<and>
         take 2 (drop c (fold (\<lambda>c row. put_pair c (f c) row) cols ?row)) =
           (if c \<in> set cols then f c else take 2 (drop c ?row))"
    using Cons.prems len by (intro Cons.IH) auto
  show ?case
  proof (cases "c = c'")
    case True
    then have "c \<notin> set cols" using Cons.prems(1) by simp
    moreover have "take 2 (drop c ?row) = f c"
      using True Cons.prems(2) by (simp add: slice_put_pair_same)
    ultimately show ?thesis using IH len True by simp
  next
    case False
    have "even c'" using Cons.prems(2) by simp
    with False \<open>even c\<close> have "c + 2 \<le> c' \<or> c' + 2 \<le> c"
      by presburger
    then have "take 2 (drop c ?row) = take 2 (drop c row)"
      using Cons.prems(2) by (intro slice_put_pair_other) auto
    with IH len False show ?thesis by simp
  qed
qed


lemma scapair_rows:
  "scapair raw ''deseq'' =
     Inr (map (\<lambda>r. if not_sentinel r
            then fold (\<lambda>c row. put_pair c (scaled_pair_row (shape1 raw) (filter not_sentinel raw) c r) row)
                   (filter even [0 ..< shape1 raw]) (map (\<lambda>v. if val_eq v (- 1) then NaN else v) r)
            else map (\<lambda>v. if val_eq v (- 1) then NaN else v) r) raw)"
  unfolding scapair_def Let_def
  using fold_scale_pair_map[of "shape1 raw" not_sentinel raw "filter even [0 ..< shape1 raw]"
      "map (\<lambda>v. if val_eq v (- 1) then NaN else v)"]
  by simp

lemma scapair_slice:
  assumes wf: "\<forall>row \<in> set raw. length row = shape1 raw" and ev: "even (shape1 raw)"
    and c: "even c" "c + 2 \<le> shape1 raw" and i: "i < length raw" "not_sentinel (raw ! i)"
    and sc: "scapair raw ''deseq'' = Inr scaled"
  shows "length (scaled ! i) = shape1 raw \<and>
         take 2 (drop c (scaled ! i)) =
           scaled_pair_row (shape1 raw) (filter not_sentinel raw) c (raw ! i)"
proof -
  let ?n = "shape1 raw"
  let ?r = "raw ! i"
  let ?g = "map (\<lambda>v. if val_eq v (- 1) then NaN else v) ?r"
  let ?cols = "filter even [0 ..< ?n]"
  let ?f = "\<lambda>c. scaled_pair_row ?n (filter not_sentinel raw) c ?r"
  have lr: "length ?r = ?n" using wf i(1) by simp
  have row: "scaled ! i = fold (\<lambda>c row. put_pair c (?f c) row) ?cols ?g"
    using sc i unfolding scapair_rows by auto
  have cols: "\<forall>c' \<in> set ?cols. even c' \<and> c' + 2 \<le> length ?g \<and> length (?f c') = 2"
  proof
    fix c' assume "c' \<in> set ?cols"
    then have "even c'" "c' < ?n" by auto
    with ev have "c' + 2 \<le> ?n" by presburger
    with lr \<open>even c'\<close> show "even c' \<and> c' + 2 \<le> length ?g \<and> length (?f c') = 2"
      by (simp add: length_scaled_pair_row)
  qed
  have "c \<in> set ?cols" using c by auto
  with fold_put_pair[of ?cols ?g ?f c, OF _ cols c(1)] c(2) lr row
  show ?thesis by simp
qed

lemma size_factors_no_row:
  assumes "\<forall>row \<in> set counts. \<not> list_all (\<lambda>v. \<not> val_eq v 0) row"
  shows "size_factors 2 counts = [NaN, NaN]"
proof -
  have "filter (list_all (\<lambda>v. \<not> val_eq v 0)) counts = []"
    using assms by (simp add: filter_empty_conv)
  then show ?thesis
    by (simp add: size_factors_def vmedian_def upt_rec[of 0] upt_rec[of 1] numeral_2_eq_2)
qed

lemma vdiv_NaN [simp]: "vdiv x NaN = NaN"
  by (cases x) simp_all

lemma take2_drop:
  "c + 2 \<le> length row \<Longrightarrow> take 2 (drop c row) = [row ! c, row ! (c + 1)]"
  by (simp add: list_eq_iff_nth_eq nth_Cons split: nat.splits)


text \<open>
  Claim C2, as amended. When every row without a sentinel has a zero count in the pair
  at columns \<open>col1\<close> and \<open>col1 + 1\<close>, no row qualifies for the estimation: the size factors
  of the pair are not-a-number, \<^verbatim>\<open>scapair\<close> raises nothing, and in its result both
  columns of the pair are not-a-number in every row without a sentinel. No size factor
  of 1 is used and the pair is not left unchanged.
\<close>

theorem scapair_no_qualifying_row:
  assumes wf: "\<forall>row \<in> set raw. length row = shape1 raw" and ev: "even (shape1 raw)"
    and c: "even col1" "col1 + 2 \<le> shape1 raw"
    and zero: "\<forall>row \<in> set raw. not_sentinel row \<longrightarrow>
                 val_eq (row ! col1) 0 \<or> val_eq (row ! (col1 + 1)) 0"
  shows "size_factors 2 (map (\<lambda>row. take 2 (drop col1 row)) (filter not_sentinel raw)) = [NaN, NaN] \<and>
         (\<exists>scaled. scapair raw ''deseq'' = Inr scaled \<and> length scaled = length raw \<and>
            (\<forall>i < length raw. not_sentinel (raw ! i) \<longrightarrow>
               scaled ! i ! col1 = NaN \<and> scaled ! i ! (col1 + 1) = NaN))"
proof -
  let ?tmp = "filter not_sentinel raw"
  let ?pair = "map (\<lambda>row. take 2 (drop col1 row)) ?tmp"
  have "\<forall>row \<in> set ?pair. \<not> list_all (\<lambda>v. \<not> val_eq v 0) row"
  proof
    fix p assume "p \<in> set ?pair"
    then obtain row where row: "row \<in> set raw" "not_sentinel row" "p = take 2 (drop col1 row)"
      by auto
    with wf c(2) have p: "p = [row ! col1, row ! (col1 + 1)]" by (simp add: take2_drop)
    from zero row have "val_eq (row ! col1) 0 \<or> val_eq (row ! (col1 + 1)) 0" by blast
    then show "\<not> list_all (\<lambda>v. \<not> val_eq v 0) p" unfolding p by auto
  qed
  then have sf: "size_factors 2 ?pair = [NaN, NaN]" by (rule size_factors_no_row)
  obtain scaled where sc: "scapair raw ''deseq'' = Inr scaled"
    by (simp add: scapair_def Let_def)
  have len: "length scaled = length raw" using sc unfolding scapair_rows by auto
  have "\<forall>i < length raw. not_sentinel (raw ! i) \<longrightarrow>
          scaled ! i ! col1 = NaN \<and> scaled ! i ! (col1 + 1) = NaN"
  proof (intro allI impI)
    fix i assume i: "i < length raw" "not_sentinel (raw ! i)"
    from scapair_slice[OF wf ev c i sc]
    have l: "length (scaled ! i) = shape1 raw"
      and sl: "take 2 (drop col1 (scaled ! i)) = scaled_pair_row (shape1 raw) ?tmp col1 (raw ! i)"
      by simp_all
    have lr: "length (raw ! i) = shape1 raw" using wf i(1) by simp
    have "min 2 (shape1 raw - col1) = 2" using c(2) by simp
    then have "scaled_pair_row (shape1 raw) ?tmp col1 (raw ! i) = [NaN, NaN]"
      using sf lr c(2) by (simp add: scaled_pair_row_def take2_drop)
    with sl l c(2) show "scaled ! i ! col1 = NaN \<and> scaled ! i ! (col1 + 1) = NaN"
      by (simp add: take2_drop)
  qed
  with sf sc len show ?thesis by blast
qed

theorem scapair_no_qualifying_row_witness:
  "size_factors 2 (map (\<lambda>row. take 2 (drop 0 row))
      (filter not_sentinel [[Val 0, Val 5], [Val 3, Val 0], [Val (- 1), Val (- 1)]])) = [NaN, NaN] \<and>
   (\<exists>scaled. scapair [[Val 0, Val 5], [Val 3, Val 0], [Val (- 1), Val (- 1)]] ''deseq'' = Inr scaled \<and>
      scaled ! 0 ! 0 = NaN \<and> scaled ! 0 ! 1 = NaN \<and> scaled ! 1 ! 0 = NaN \<and> scaled ! 1 ! 1 = NaN)"
proof -
  let ?raw = "[[Val 0, Val 5], [Val 3, Val 0], [Val (- 1), Val (- 1)]]"
  have "size_factors 2 (map (\<lambda>row. take 2 (drop 0 row)) (filter not_sentinel ?raw)) = [NaN, NaN] \<and>
         (\<exists>scaled. scapair ?raw ''deseq'' = Inr scaled \<and> length scaled = length ?raw \<and>
            (\<forall>i < length ?raw. not_sentinel (?raw ! i) \<longrightarrow>
               scaled ! i ! 0 = NaN \<and> scaled ! i ! (0 + 1) = NaN))"
    by (rule scapair_no_qualifying_row) (simp_all add: shape1_def not_sentinel_def)
  then obtain scaled where sf: "size_factors 2 (map (\<lambda>row. take 2 (drop 0 row))
        (filter not_sentinel ?raw)) = [NaN, NaN]"
    and sc: "scapair ?raw ''deseq'' = Inr scaled"
    and rows: "\<forall>i < length ?raw. not_sentinel (?raw ! i) \<longrightarrow>
               scaled ! i ! 0 = NaN \<and> scaled ! i ! (0 + 1) = NaN"
    by blast
  from rows[rule_format, of 0] rows[rule_format, of 1]
  have "scaled ! 0 ! 0 = NaN \<and> scaled ! 0 ! 1 = NaN \<and> scaled ! 1 ! 0 = NaN \<and> scaled ! 1 ! 1 = NaN"
    by (simp add: not_sentinel_def)
  with sf sc show ?thesis by blast
qed

text \<open>
  The claim as stated fails: for the one-row pair \<open>(0, 5)\<close> no row qualifies, and
  \<^verbatim>\<open>scapair\<close> returns a matrix (of missing values) instead of raising an error.
\<close>

theorem scapair_no_error_counterexample:
  "scapair [[Val 0, Val 5]] ''deseq'' = Inr [[NaN, NaN]]"
  by (simp add: scapair_def shape1_def scale_pair_def size_factors_def vmedian_def
       not_sentinel_def upt_rec[of 0] upt_rec[of 1] numeral_2_eq_2)


lemma sort_map_shift: "sort (map (\<lambda>x. x - c) xs) = map (\<lambda>x. x - c) (sort xs)" for c :: real
proof (rule properties_for_sort)
  show "mset (map (\<lambda>x. x - c) (sort xs)) = mset (map (\<lambda>x. x - c) xs)" by simp
  show "sorted (map (\<lambda>x. x - c) (sort xs))"
    using sorted_sort[of xs] by (simp add: sorted_map sorted_wrt_iff_nth_less)
qed

lemma sort_map_uminus: "sort (map uminus xs) = rev (map uminus (sort xs))" for xs :: "real list"
proof (rule properties_for_sort)
  show "mset (rev (map uminus (sort xs))) = mset (map uminus xs)" by simp
  have "sorted_wrt (\<lambda>x y. x \<ge> y) (map uminus (sort xs))"
    using sorted_sort[of xs] by (simp add: sorted_wrt_map)
  then show "sorted (rev (map uminus (sort xs)))"
    by (simp add: sorted_wrt_rev)
qed

lemma median_shift:
  assumes "xs \<noteq> []"
  shows "median (map (\<lambda>x. x - c) xs) = median xs - c"
proof -
  let ?s = "sort xs"
  let ?n = "length xs"
  have n: "0 < ?n" using assms by simp
  have a: "?n div 2 < ?n" using n by simp
  have b: "?n div 2 - 1 < ?n" using n by arith
  show ?thesis
    using a b by (simp add: median_def sort_map_shift Let_def field_simps)
qed

lemma median_uminus:
  assumes "xs \<noteq> []"
  shows "median (map uminus xs) = - median xs"
proof -
  let ?s = "sort xs"
  let ?n = "length xs"
  have n: "0 < ?n" using assms by simp
  have a: "?n div 2 < ?n" using n by simp
  have b: "?n div 2 - 1 < ?n" using n by arith
  show ?thesis
  proof (cases "odd ?n")
    case True
    then have "?n - Suc (?n div 2) = ?n div 2" by presburger
    with True a show ?thesis
      by (simp add: median_def sort_map_uminus Let_def rev_nth)
  next
    case False
    with n have e: "?n - Suc (?n div 2 - 1) = ?n div 2" "?n - Suc (?n div 2) = ?n div 2 - 1"
      by presburger+
    with False a b show ?thesis
      by (simp add: median_def sort_map_uminus Let_def rev_nth field_simps)
  qed
qed


lemma size_factors_positive:
  assumes ne: "ab \<noteq> []" and pos: "\<forall>(a, b) \<in> set ab. 0 < a \<and> 0 < b"
  shows "size_factors 2 (pair_rows ab) =
           [Val (exp (median (half_log_ratio ab))), Val (exp (- median (half_log_ratio ab)))]"
proof -
  let ?L = "\<lambda>(a, b). [Val (ln a), Val (ln b)]"
  let ?M = "\<lambda>(a::real, b::real). Val ((ln a + ln b) / 2)"
  let ?D = "\<lambda>(a::real, b::real). [Val ((ln a - ln b) / 2), Val (- ((ln a - ln b) / 2))]"
  have f: "filter (list_all (\<lambda>v. \<not> val_eq v 0)) (pair_rows ab) = pair_rows ab"
    using pos by (auto simp: pair_rows_def filter_id_conv)
  have lc: "map (map vlog) (pair_rows ab) = map ?L ab"
    using pos by (auto simp: pair_rows_def)
  have mean: "map vmean (map ?L ab) = map ?M ab"
    by (simp add: vmean_def split_def)
  have diffs: "map2 (\<lambda>row m. map (\<lambda>x. vsub x m) row) (map ?L ab) (map ?M ab) = map ?D ab"
    by (simp add: zip_map_map zip_same_conv_map split_def field_simps)
  have c0: "map (\<lambda>row. row ! 0) (map ?D ab) = map Val (half_log_ratio ab)"
    by (simp add: half_log_ratio_def split_def)
  have c1: "map (\<lambda>row. row ! 1) (map ?D ab) = map Val (map uminus (half_log_ratio ab))"
    by (simp add: half_log_ratio_def split_def)
  have vm: "vmedian (map Val xs) = Val (median xs)" if "xs \<noteq> []" for xs
    using that by (simp add: vmedian_def list_ex_iff comp_def)
  have h: "half_log_ratio ab \<noteq> []" using ne by (simp add: half_log_ratio_def)
  have "size_factors 2 (pair_rows ab) =
      map (\<lambda>c. vexp (vmedian (map (\<lambda>row. row ! c) (map ?D ab)))) [0 ..< 2]"
    unfolding size_factors_def Let_def f lc mean diffs ..
  also have "\<dots> = [vexp (vmedian (map Val (half_log_ratio ab))),
                   vexp (vmedian (map Val (map uminus (half_log_ratio ab))))]"
    unfolding c0[symmetric] c1[symmetric] by (simp add: upt_rec[of 0] upt_rec[of 1] numeral_2_eq_2)
  also have "\<dots> = [Val (exp (median (half_log_ratio ab))), Val (exp (- median (half_log_ratio ab)))]"
    using h vm[of "half_log_ratio ab"] vm[of "map uminus (half_log_ratio ab)"]
    by (simp add: median_uminus del: map_map)
  finally show ?thesis .
qed


lemma scale_pair_rows:
  assumes "0 < s0" "0 < s1"
  shows "map (\<lambda>row. map2 vdiv row [Val s0, Val s1]) (pair_rows ab) =
         pair_rows (map (\<lambda>(a, b). (a / s0, b / s1)) ab)"
  using assms by (simp add: pair_rows_def split_def)

lemma half_log_ratio_scaled:
  assumes pos: "\<forall>(a, b) \<in> set ab. 0 < a \<and> 0 < b"
  shows "half_log_ratio (map (\<lambda>(a, b). (a / exp m, b / exp (- m))) ab) =
         map (\<lambda>x. x - m) (half_log_ratio ab)"
  unfolding half_log_ratio_def map_map
proof (rule map_cong[OF refl])
  fix p assume "p \<in> set ab"
  with pos obtain a b where p: "p = (a, b)" "0 < a" "0 < b" by (cases p) auto
  then show "((\<lambda>(a, b). (ln a - ln b) / 2) \<circ> (\<lambda>(a, b). (a / exp m, b / exp (- m)))) p =
             ((\<lambda>x. x - m) \<circ> (\<lambda>(a, b). (ln a - ln b) / 2)) p"
    by (simp add: ln_div field_simps)
qed

lemma size_factors_idempotent:
  assumes ne: "ab \<noteq> []" and pos: "\<forall>(a, b) \<in> set ab. 0 < a \<and> 0 < b"
  shows "size_factors 2 (map (\<lambda>row. map2 vdiv row (size_factors 2 (pair_rows ab))) (pair_rows ab)) =
           [Val 1, Val 1]"
proof -
  let ?m = "median (half_log_ratio ab)"
  let ?ab' = "map (\<lambda>(a, b). (a / exp ?m, b / exp (- ?m))) ab"
  have ne': "?ab' \<noteq> []" using ne by simp
  have pos': "\<forall>(a, b) \<in> set ?ab'. 0 < a \<and> 0 < b" using pos by auto
  have h: "half_log_ratio ab \<noteq> []" using ne by (simp add: half_log_ratio_def)
  have "median (half_log_ratio ?ab') = 0"
    using half_log_ratio_scaled[OF pos, of ?m] median_shift[OF h, of ?m] by simp
  then show ?thesis
    unfolding size_factors_positive[OF ne pos]
    by (simp add: scale_pair_rows size_factors_positive[OF ne' pos'])
qed


text \<open>
  Over the real numbers the depth correction is idempotent: for a count matrix with at
  least one row, an even number of columns and only positive counts (no zero, no
  sentinel), \<^verbatim>\<open>scapair\<close> divides the two columns of every pair by the pair's size factors,
  and the size factors recomputed on the scaled pair are 1 for both columns. This is a
  fact of exact arithmetic only: the program computes logarithm, mean, median and
  exponential in double precision, where the recomputed factor can differ from 1 in the
  last place.
\<close>

lemma scapair_idempotent:
  assumes ne: "raw \<noteq> []"
    and wf: "\<forall>row \<in> set raw. length row = shape1 raw" and ev: "even (shape1 raw)"
    and pos: "\<forall>row \<in> set raw. list_all positive row"
    and c: "even col1" "col1 + 2 \<le> shape1 raw"
  shows "\<exists>scaled. scapair raw ''deseq'' = Inr scaled \<and> length scaled = length raw \<and>
           (\<forall>i < length raw. take 2 (drop col1 (scaled ! i)) =
              map2 vdiv (take 2 (drop col1 (raw ! i)))
                (size_factors 2 (map (\<lambda>row. take 2 (drop col1 row)) raw))) \<and>
           size_factors 2 (map (\<lambda>row. take 2 (drop col1 row)) scaled) = [Val 1, Val 1]"
proof -
  let ?sl = "\<lambda>row. take 2 (drop col1 row)"
  let ?ab = "map (\<lambda>r. (the_val (r ! col1), the_val (r ! (col1 + 1)))) raw"
  have pv: "\<not> val_eq v (- 1)" if "positive v" for v
    using that by (cases v) (simp_all add: positive_def)
  have ns: "not_sentinel row" if "row \<in> set raw" for row
    using pos that pv unfolding not_sentinel_def list_all_iff by blast
  then have tmp: "filter not_sentinel raw = raw" by (simp add: filter_id_conv)
  obtain scaled where sc: "scapair raw ''deseq'' = Inr scaled"
    by (simp add: scapair_def Let_def)
  have len: "length scaled = length raw" using sc unfolding scapair_rows by auto
  have w: "min 2 (shape1 raw - col1) = 2" using c(2) by simp
  have slice: "?sl (scaled ! i) = map2 vdiv (?sl (raw ! i)) (size_factors 2 (map ?sl raw))"
    if "i < length raw" for i
    using scapair_slice[OF wf ev c that ns sc] that
    by (simp add: scaled_pair_row_def tmp w)
  have pr: "map ?sl raw = pair_rows ?ab"
    unfolding pair_rows_def map_map
  proof (rule map_cong[OF refl])
    fix r assume r: "r \<in> set raw"
    with wf c(2) have "?sl r = [r ! col1, r ! (col1 + 1)]" by (simp add: take2_drop)
    moreover from r wf c(2) have "r ! col1 \<in> set r" "r ! (col1 + 1) \<in> set r" by simp_all
    with pos r have "positive (r ! col1)" "positive (r ! (col1 + 1))"
      by (auto simp: list_all_iff)
    then have "r ! col1 = Val (the_val (r ! col1))" "r ! (col1 + 1) = Val (the_val (r ! (col1 + 1)))"
      by (auto simp: positive_def split: val.splits)
    ultimately show "?sl r = ((\<lambda>(a, b). [Val a, Val b]) \<circ>
        (\<lambda>r. (the_val (r ! col1), the_val (r ! (col1 + 1))))) r"
      by simp
  qed
  have abne: "?ab \<noteq> []" using ne by simp
  have abpos: "\<forall>(a, b) \<in> set ?ab. 0 < a \<and> 0 < b"
  proof -
    have "0 < the_val (r ! col1) \<and> 0 < the_val (r ! (col1 + 1))" if r: "r \<in> set raw" for r
    proof -
      from r wf c(2) have "r ! col1 \<in> set r" "r ! (col1 + 1) \<in> set r" by simp_all
      with pos r have "positive (r ! col1)" "positive (r ! (col1 + 1))"
        by (auto simp: list_all_iff)
      then show ?thesis by (auto simp: positive_def split: val.splits)
    qed
    then show ?thesis by auto
  qed
  have "map ?sl scaled = map (\<lambda>row. map2 vdiv row (size_factors 2 (map ?sl raw))) (map ?sl raw)"
  proof (rule nth_equalityI)
    show "length (map ?sl scaled) =
        length (map (\<lambda>row. map2 vdiv row (size_factors 2 (map ?sl raw))) (map ?sl raw))"
      by (simp add: len)
  next
    fix i assume "i < length (map ?sl scaled)"
    then have i: "i < length raw" by (simp add: len)
    then show "map ?sl scaled ! i =
        map (\<lambda>row. map2 vdiv row (size_factors 2 (map ?sl raw))) (map ?sl raw) ! i"
      using slice[OF i] len by simp
  qed
  then have "size_factors 2 (map ?sl scaled) = [Val 1, Val 1]"
    unfolding pr using size_factors_idempotent[OF abne abpos] by simp
  with sc len slice show ?thesis by blast
qed

subsection \<open>Feature scaling\<close>


lemma sort_nth0_Min:
  assumes "xs \<noteq> []"
  shows "sort xs ! 0 = Min (set xs)"
proof -
  have ne: "sort xs \<noteq> []" using assms by (metis length_0_conv length_sort)
  have "sort xs ! 0 \<in> set xs"
    using ne by (metis length_greater_0_conv nth_mem set_sort)
  moreover have "sort xs ! 0 \<le> y" if "y \<in> set xs" for y
  proof -
    from that have "y \<in> set (sort xs)" by simp
    then obtain i where "i < length (sort xs)" "sort xs ! i = y" by (metis in_set_conv_nth)
    then show ?thesis using sorted_nth_mono[OF sorted_sort, of 0 i xs] by auto
  qed
  ultimately show ?thesis by (intro Min_eqI[symmetric]) auto
qed

lemma mquantile_zero:
  assumes "row \<noteq> []"
  shows "mquantile row 0 = Min (set row)"
proof -
  let ?n = "length (sort row)"
  have n: "?n \<noteq> 0" using assms by simp
  have sne: "sort row \<noteq> []" using assms by (metis length_0_conv length_sort)
  show ?thesis
  proof (cases "?n = 1")
    case True
    with n sne show ?thesis by (simp add: mquantile_def Let_def sort_nth0_Min[OF assms])
  next
    case False
    have "0 < length row" using assms by simp
    with False have n2: "2 \<le> length row" by (simp del: length_greater_0_conv)
    then have r: "2 \<le> real (length row)" by simp
    have c: "clip (2 / 5) 1 (real (length row) - 1) = 1"
      using r by (simp add: clip_def)
    have g: "clip (- (3 / 5)) 0 1 = 0" by (simp add: clip_def)
    show ?thesis using n False sne
      by (simp add: mquantile_def Let_def c g sort_nth0_Min[OF assms])
  qed
qed


lemma sig_row_length [simp]: "length (sig_row hi row) = length row"
  by (simp add: sig_row_def dsig_def Let_def)

lemma sig_row_nth:
  "i < length row \<Longrightarrow>
   sig_row hi row ! i =
     (dsig_entry (row ! i) (mquantile row 0) (mquantile row 0) (mquantile row hi) - 0.5) * 2"
  by (simp add: sig_row_def dsig_def Let_def)




lemma sig_row_right_branch:
  assumes gt: "Min (set row) < mquantile row hi" and i: "i < length row"
  shows "0 \<le> row ! i - mquantile row 0 \<and> 0 \<le> sig_row hi row ! i \<and> sig_row hi row ! i < 1 \<and>
         (row ! i = Min (set row) \<longrightarrow> sig_row hi row ! i = 0)"
proof -
  from i have ne: "row \<noteq> []" by auto
  let ?loc = "mquantile row 0"
  let ?uq = "mquantile row hi"
  have loc: "?loc = Min (set row)" by (rule mquantile_zero[OF ne])
  have a: "0 \<le> row ! i - ?loc" using i loc by simp
  have r: "?uq - ?loc > 0" using gt loc by simp
  define t where "t = exp ((row ! i - ?loc) / (- 0.5 * (?uq - ?loc)))"
  have d: "dsig_entry (row ! i) ?loc ?loc ?uq = 1 / (t + 1)"
    using a r by (simp add: dsig_entry_def Let_def t_def)
  have "(row ! i - ?loc) / (- 0.5 * (?uq - ?loc)) \<le> 0"
    using a r by (intro divide_nonneg_neg) simp_all
  then have e: "t \<le> 1" unfolding t_def by simp
  have e0: "0 < t" unfolding t_def by simp
  have lo: "1 / 2 \<le> 1 / (t + 1)" using e e0 by (simp add: field_simps)
  have hi: "1 / (t + 1) < 1" using e0 by (simp add: field_simps)
  have z: "row ! i = Min (set row) \<longrightarrow> sig_row hi row ! i = 0"
    using i loc by (simp add: sig_row_nth dsig_entry_def)
  from lo hi d a z show ?thesis using i by (simp add: sig_row_nth)
qed


lemma whiten_row_length [simp]: "length (whiten_row npstd row) = length row"
  by (simp add: whiten_row_def Let_def)




lemma transposed_nth:
  assumes "i < n" "j < length data"
  shows "transposed n data ! i ! j = data ! j ! i"
    and "length (transposed n data) = n" and "length (transposed n data ! i) = length data"
  using assms by (simp_all add: transposed_def)

lemma scarr_sig:
  assumes "take 3 meth = ''sig''" "pyfloat (upto_sig (drop 3 meth)) = Some p"
  shows "\<exists>out. scarr pyfloat npstd arr meth = Inr out \<and> length out = length arr \<and>
           (\<forall>i < length arr. length (out ! i) = shape1r arr \<and>
              (\<forall>j < shape1r arr. out ! i ! j = Val (sig_row (p / 100) (column j arr) ! i)))"
proof -
  let ?data = "map (\<lambda>row. map Val (sig_row (p / 100) row)) (transposed (shape1r arr) arr)"
  have sc: "scarr pyfloat npstd arr meth = Inr (transposed (length arr) ?data)"
    using assms by (simp add: scarr_def Let_def)
  have ld: "length ?data = shape1r arr" by (simp add: transposed_def)
  have e: "transposed (length arr) ?data ! i ! j = Val (sig_row (p / 100) (column j arr) ! i)"
    if "i < length arr" "j < shape1r arr" for i j
  proof -
    have "transposed (length arr) ?data ! i ! j = ?data ! j ! i"
      using that ld by (intro transposed_nth) simp_all
    also have "\<dots> = Val (sig_row (p / 100) (column j arr) ! i)"
      using that by (simp add: transposed_def column_def)
    finally show ?thesis .
  qed
  have l: "length (transposed (length arr) ?data ! i) = shape1r arr" if "i < length arr" for i
    using that ld by (simp add: transposed_def)
  show ?thesis
    unfolding sc using e l by (simp add: transposed_def)
qed



lemma column_nth: "i < length arr \<Longrightarrow> column j arr ! i = arr ! i ! j"
  by (simp add: column_def)

lemma column_length [simp]: "length (column j arr) = length arr"
  by (simp add: column_def)


text \<open>
  The lower quantile and the location of a column are both its quantile at probability 0,
  which is the minimum of the column: every entry of the result is
  \<^verbatim>\<open>(dsig(x, min, min, uq) - 0.5) * 2\<close>. When the upper quantile is greater than the minimum,
  every entry of the column is in the right branch (\<open>a \<ge> 0\<close>) and the minimum is mapped
  to 0. Over the real numbers the scaled value is below 1; this last bound is a fact of
  exact arithmetic only, since \<^verbatim>\<open>dsig\<close> computes in single precision, where
  \<^verbatim>\<open>1 + exp(a)\<close> is rounded to 1 for \<open>a \<le> -17\<close> and the scaled value is then exactly 1.
\<close>

lemma scarr_sigmoid_right_branch:
  assumes "take 3 meth = ''sig''" "pyfloat (upto_sig (drop 3 meth)) = Some p"
    and "arr \<noteq> []" "j < shape1r arr"
  shows "mquantile (column j arr) 0 = Min (set (column j arr)) \<and>
         (\<exists>out. scarr pyfloat npstd arr meth = Inr out \<and>
            (\<forall>i < length arr.
               out ! i ! j =
                 Val ((dsig_entry (arr ! i ! j) (Min (set (column j arr))) (Min (set (column j arr)))
                         (mquantile (column j arr) (p / 100)) - 0.5) * 2)) \<and>
            (Min (set (column j arr)) < mquantile (column j arr) (p / 100) \<longrightarrow>
             (\<forall>i < length arr.
                0 \<le> arr ! i ! j - Min (set (column j arr)) \<and>
                (\<exists>v. out ! i ! j = Val v \<and> 0 \<le> v \<and> v < 1 \<and>
                     (arr ! i ! j = Min (set (column j arr)) \<longrightarrow> v = 0)))))"
proof -
  have ne: "column j arr \<noteq> []" using assms(3) by (simp add: column_def)
  have loc: "mquantile (column j arr) 0 = Min (set (column j arr))"
    by (rule mquantile_zero[OF ne])
  from scarr_sig[where pyfloat=pyfloat and npstd=npstd and meth=meth and p=p and arr=arr, OF assms(1,2)]
  obtain out where sc: "scarr pyfloat npstd arr meth = Inr out"
    and e: "\<And>i j. i < length arr \<Longrightarrow> j < shape1r arr \<Longrightarrow>
              out ! i ! j = Val (sig_row (p / 100) (column j arr) ! i)"
    by blast
  have v: "out ! i ! j =
      Val ((dsig_entry (arr ! i ! j) (Min (set (column j arr))) (Min (set (column j arr)))
              (mquantile (column j arr) (p / 100)) - 0.5) * 2)"
    if i: "i < length arr" for i
    using e[OF i assms(4)] i loc by (simp add: sig_row_nth column_nth)
  have r: "0 \<le> arr ! i ! j - Min (set (column j arr)) \<and>
        (\<exists>v. out ! i ! j = Val v \<and> 0 \<le> v \<and> v < 1 \<and>
             (arr ! i ! j = Min (set (column j arr)) \<longrightarrow> v = 0))"
    if i: "i < length arr" and gt: "Min (set (column j arr)) < mquantile (column j arr) (p / 100)"
    for i
    using sig_row_right_branch[OF gt, of i] e[OF i assms(4)] i loc
    by (simp add: column_nth)
  from loc sc v r show ?thesis by blast
qed







subsection \<open>Extraction stages\<close>

lemma listdir_exists:
  assumes "file_exists w odn name" "glob name name"
  shows "listdir (mkdir odn w\<lparr>trace := t\<rparr>) odn name \<noteq> []"
proof -
  from assms(1) obtain entries where e: "dirs w odn = Some entries" "name \<in> set (map fst entries)"
    by (auto simp: file_exists_def split: option.splits)
  with assms(2) have "name \<in> set (filter (\<lambda>n. glob name n) (map fst entries))"
    by simp
  then have "filter (\<lambda>n. glob name n) (map fst entries) \<noteq> []"
    by (metis empty_iff empty_set)
  with e(1) show ?thesis by (simp add: listdir_def mkdir_def)
qed

lemma mkdir_exists:
  "file_exists w odn name \<Longrightarrow> dirs (mkdir odn w) = dirs w"
  by (auto simp: file_exists_def mkdir_def split: option.splits)

lemma chk_exit_cases: "chk_exit c m = (if c then Inl (Exit m) else Inr ())"
  by (simp add: chk_exit_def)

lemma glob_star: "glob p name \<Longrightarrow> glob (CHR ''*'' # p) name"
  by (cases name) auto

lemma glob_self: "CHR ''['' \<notin> set p \<Longrightarrow> glob p p"
proof (induction p)
  case Nil
  then show ?case by simp
next
  case (Cons c p)
  then have IH: "glob p p" by simp
  from Cons.prems have c: "c \<noteq> CHR ''[''" by auto
  show ?case using IH c glob_star[OF IH] by simp
qed

text \<open>
  For a run identifier without an opening bracket both stages refuse an existing output:
  the pattern built from the identifier matches the file's name, the stage ends with an
  error, leaves every directory as it was and does no extraction work and no write.
\<close>

lemma extract_refuses_listed_output:
  "(file_exists w odn (run_id env runid (the bed # the bams) @ ''_lvl.arr'') \<and>
    CHR ''['' \<notin> set (run_id env runid (the bed # the bams)) \<longrightarrow>
    (\<exists>err w'. extract_absolute env bed bams odn runid shorten par w = (Inl err, w') \<and>
       dirs w' = dirs w \<and>
       (\<exists>evs. trace w' = trace w @ evs \<and> \<not> list_ex is_work evs) \<and>
       (bed \<noteq> None \<and> bams \<noteq> None \<and> chks env (map (inp_file env) (the bams)) = Inr () \<and>
        (\<exists>regs. parse_bed env (the bed) = Inr regs) \<longrightarrow>
        err = Exit (''error: '' @ run_id env runid (the bed # the bams) @ '' exists in '' @ odn)))) \<and>
   (file_exists w odn (run_id env runid (dbed # sort abams @ sort bbams) @ ''_cnt.arr'') \<and>
    CHR ''['' \<notin> set (run_id env runid (dbed # sort abams @ sort bbams)) \<longrightarrow>
    (\<exists>err w'. extract_differential env dbed abams bbams odn runid shorten step par w = (Inl err, w') \<and>
       dirs w' = dirs w \<and>
       (\<exists>evs. trace w' = trace w @ evs \<and> \<not> list_ex is_work evs) \<and>
       (\<not> fst (inp_file env dbed) \<and> chks env (map (inp_file env) (abams @ bbams)) = Inr () \<and>
        (\<exists>regs. parse_bed env dbed = Inr regs) \<longrightarrow>
        err = Exit (''error: '' @ run_id env runid (dbed # sort abams @ sort bbams) @
                      '' exists in '' @ odn))))"
proof (intro conjI impI)
  let ?rid = "run_id env runid (the bed # the bams)"
  assume h: "file_exists w odn (?rid @ ''_lvl.arr'') \<and> CHR ''['' \<notin> set ?rid"
  then have g: "glob (?rid @ ''_lvl.arr'') (?rid @ ''_lvl.arr'')"
    by (intro glob_self) simp
  note l = listdir_exists[OF conjunct1[OF h] g]
  note d = mkdir_exists[OF conjunct1[OF h]]
  have t: "trace (mkdir odn w) = trace w @ [Mkdir odn]" by (simp add: mkdir_def)
  show "\<exists>err w'. extract_absolute env bed bams odn runid shorten par w = (Inl err, w') \<and>
       dirs w' = dirs w \<and>
       (\<exists>evs. trace w' = trace w @ evs \<and> \<not> list_ex is_work evs) \<and>
       (bed \<noteq> None \<and> bams \<noteq> None \<and> chks env (map (inp_file env) (the bams)) = Inr () \<and>
        (\<exists>regs. parse_bed env (the bed) = Inr regs) \<longrightarrow>
        err = Exit (''error: '' @ ?rid @ '' exists in '' @ odn))"
    using l d t
    by (auto simp: extract_absolute_def chk_exit_cases Let_def split: sum.splits)
next
  let ?rid = "run_id env runid (dbed # sort abams @ sort bbams)"
  assume h: "file_exists w odn (?rid @ ''_cnt.arr'') \<and> CHR ''['' \<notin> set ?rid"
  then have g: "glob (?rid @ ''_cnt.arr'') (?rid @ ''_cnt.arr'')"
    by (intro glob_self) simp
  note l = listdir_exists[OF conjunct1[OF h] g]
  note d = mkdir_exists[OF conjunct1[OF h]]
  have t: "trace (mkdir odn w) = trace w @ [Mkdir odn]" by (simp add: mkdir_def)
  show "\<exists>err w'. extract_differential env dbed abams bbams odn runid shorten step par w = (Inl err, w') \<and>
       dirs w' = dirs w \<and>
       (\<exists>evs. trace w' = trace w @ evs \<and> \<not> list_ex is_work evs) \<and>
       (\<not> fst (inp_file env dbed) \<and> chks env (map (inp_file env) (abams @ bbams)) = Inr () \<and>
        (\<exists>regs. parse_bed env dbed = Inr regs) \<longrightarrow>
        err = Exit (''error: '' @ ?rid @ '' exists in '' @ odn))"
    using l d t
    by (auto simp: extract_differential_def chk_exit_cases Let_def split: sum.splits)
qed

text \<open>
  Claim C8. The claim says that a stage whose run identifier already has an output file
  in the target directory ends with the error and does not overwrite the file, as the
  docstrings say (\<^verbatim>\<open>Program aborts if output files are present\<close>). The stages look for
  the file with \<^verbatim>\<open>odn.listdir("%s_lvl.arr" % runid)\<close>, which reads the name as a pattern:
  for the run identifier \<^verbatim>\<open>r[1]\<close> the pattern \<^verbatim>\<open>r[1]_lvl.arr\<close> matches \<^verbatim>\<open>r1_lvl.arr\<close> and
  not the file \<^verbatim>\<open>r[1]_lvl.arr\<close>. With that file (and \<^verbatim>\<open>r[1]_cnt.arr\<close>) present, both
  stages find nothing, do the extraction work and save over the file.
\<close>

theorem extract_overwrites_bracket_run_id:
  "file_exists example_world ''out'' ''r[1]_lvl.arr'' \<and>
   file_exists example_world ''out'' ''r[1]_cnt.arr'' \<and>
   glob ''r[1]_lvl.arr'' ''r[1]_lvl.arr'' = False \<and>
   fst (extract_absolute example_env (Some ''r.bed'') (Some [''m.bam'']) ''out'' (Some ''r[1]'')
          False 4 example_world) = Inr ''out/r[1]_lvl.arr'' \<and>
   dirs (snd (extract_absolute example_env (Some ''r.bed'') (Some [''m.bam'']) ''out''
          (Some ''r[1]'') False 4 example_world)) ''out'' =
     Some [(''r[1]_lvl.arr'', ArrayFile [''m''] [[1]]),
           (''r[1]_cnt.arr'', ArrayFile [''m:a'', ''m:b''] [[0, 0]])] \<and>
   trace (snd (extract_absolute example_env (Some ''r.bed'') (Some [''m.bam'']) ''out''
          (Some ''r[1]'') False 4 example_world)) =
     [Mkdir ''out'', ParseBed ''r.bed'', Extract [''m.bam''], Save ''out/r[1]_lvl.arr''] \<and>
   fst (extract_differential example_env ''r.bed'' [''a.bam''] [''b.bam''] ''out'' (Some ''r[1]'')
          False 100 4 example_world) = Inr ''out/r[1]_cnt.arr'' \<and>
   dirs (snd (extract_differential example_env ''r.bed'' [''a.bam''] [''b.bam''] ''out''
          (Some ''r[1]'') False 100 4 example_world)) ''out'' =
     Some [(''r[1]_lvl.arr'', ArrayFile [''m''] [[0]]),
           (''r[1]_cnt.arr'', ArrayFile [''m:a'', ''m:b''] [[1, 2], [- 1, - 1]])]"
  by (simp add: file_exists_def example_world_def example_env_def extract_absolute_def
      extract_differential_def chk_exit_def chks_def run_id_def mkdir_def listdir_def save_def
      close_bracket_def in_class_def Let_def)

end
